theory Spec2Isabelle
  imports Complex_Main
begin

section \<open>JavaScript numbers\<close>

text \<open>
  Every number of the client is a JavaScript \<^verbatim>\<open>number\<close>. The model keeps the four kinds of
  value an IEEE-754 binary64 can be: a finite number, the two infinities and NaN. Finite
  arithmetic is exact real arithmetic: rounding, overflow and underflow of binary64 are not
  modelled, and \<^verbatim>\<open>-0\<close> is identified with \<^verbatim>\<open>+0\<close> (a finite zero divisor acts as \<^verbatim>\<open>+0\<close>).
  The special cases of each operation follow ECMAScript. So the model is the code where no
  binary64 result is rounded across a special case; it is not where the code rounds
  \<^verbatim>\<open>Math.exp\<close> of a tiny argument to 1, or a quotient by a subnormal number to an infinity.
\<close>

datatype jsnum = Fin real | PInf | NInf | NaN

fun js_neg :: "jsnum \<Rightarrow> jsnum" where
  "js_neg (Fin x) = Fin (- x)"
| "js_neg PInf = NInf"
| "js_neg NInf = PInf"
| "js_neg NaN = NaN"

fun js_add :: "jsnum \<Rightarrow> jsnum \<Rightarrow> jsnum" where
  "js_add NaN _ = NaN"
| "js_add _ NaN = NaN"
| "js_add (Fin x) (Fin y) = Fin (x + y)"
| "js_add PInf NInf = NaN"
| "js_add NInf PInf = NaN"
| "js_add PInf _ = PInf"
| "js_add NInf _ = NInf"
| "js_add _ PInf = PInf"
| "js_add _ NInf = NInf"

definition js_sub :: "jsnum \<Rightarrow> jsnum \<Rightarrow> jsnum" where
  "js_sub a b = js_add a (js_neg b)"

text \<open>The sign of a product or quotient with an infinite operand.\<close>

definition signed_inf :: "bool \<Rightarrow> jsnum" where
  "signed_inf positive = (if positive then PInf else NInf)"

fun js_mul :: "jsnum \<Rightarrow> jsnum \<Rightarrow> jsnum" where
  "js_mul NaN _ = NaN"
| "js_mul _ NaN = NaN"
| "js_mul (Fin x) (Fin y) = Fin (x * y)"
| "js_mul (Fin x) PInf = (if x = 0 then NaN else signed_inf (0 < x))"
| "js_mul (Fin x) NInf = (if x = 0 then NaN else signed_inf (x < 0))"
| "js_mul PInf (Fin y) = (if y = 0 then NaN else signed_inf (0 < y))"
| "js_mul NInf (Fin y) = (if y = 0 then NaN else signed_inf (y < 0))"
| "js_mul PInf PInf = PInf"
| "js_mul NInf NInf = PInf"
| "js_mul PInf NInf = NInf"
| "js_mul NInf PInf = NInf"

fun js_div :: "jsnum \<Rightarrow> jsnum \<Rightarrow> jsnum" where
  "js_div NaN _ = NaN"
| "js_div _ NaN = NaN"
| "js_div (Fin x) (Fin y) =
     (if y = 0 then (if x = 0 then NaN else signed_inf (0 < x)) else Fin (x / y))"
| "js_div (Fin x) PInf = Fin 0"
| "js_div (Fin x) NInf = Fin 0"
| "js_div PInf (Fin y) = signed_inf (0 \<le> y)"
| "js_div NInf (Fin y) = signed_inf (y < 0)"
| "js_div _ _ = NaN"

fun js_exp :: "jsnum \<Rightarrow> jsnum" where
  "js_exp (Fin x) = Fin (exp x)"
| "js_exp PInf = PInf"
| "js_exp NInf = Fin 0"
| "js_exp NaN = NaN"

fun js_log :: "jsnum \<Rightarrow> jsnum" where
  "js_log (Fin x) = (if x < 0 then NaN else if x = 0 then NInf else Fin (ln x))"
| "js_log PInf = PInf"
| "js_log NInf = NaN"
| "js_log NaN = NaN"

fun js_sqrt :: "jsnum \<Rightarrow> jsnum" where
  "js_sqrt (Fin x) = (if x < 0 then NaN else Fin (sqrt x))"
| "js_sqrt PInf = PInf"
| "js_sqrt NInf = NaN"
| "js_sqrt NaN = NaN"

section \<open>The shared data model (lib/api)\<close>

text \<open>A chart point \<^verbatim>\<open>{ time: string; value: number }\<close>; the field \<^verbatim>\<open>value\<close> is named \<open>val\<close>.\<close>

record point =
  time :: string
  val :: jsnum

record ScanRequest =
  tickers :: "string list"
  period :: string
  interval :: "string option"
  start_date :: "string option"
  end_date :: "string option"

text \<open>The interface \<^verbatim>\<open>PairResult\<close>; its field \<^verbatim>\<open>method\<close> is named \<open>method_name\<close>.\<close>

record PairResult =
  pair :: string
  combo :: string
  method_name :: string
  price_corr :: jsnum
  z_score :: jsnum
  half_life :: jsnum
  move_to_mean :: jsnum
  exp_return :: jsnum
  unit_price :: jsnum
  hurst :: jsnum
  prob_profit :: jsnum
  prob_profit_low :: jsnum
  prob_profit_high :: jsnum
  same_sector :: string
  extreme_z_in_hl :: string
  extreme_z_detail :: string
  profitable_since_extreme :: string
  pnl_since_extreme :: jsnum
  historical_z_scores :: "point list"

datatype status = processing | completed | failed | not_found

record TaskResult =
  task_id :: string
  status :: status
  results :: "PairResult list"
  error :: "string option"

section \<open>The remote service and the effects of the client\<close>

text \<open>
  What \<^verbatim>\<open>fetch\<close> gives back: the promise rejects (no response at all), or it resolves to a
  response with its \<^verbatim>\<open>ok\<close> flag, its \<^verbatim>\<open>statusText\<close> and its JSON body, taken to parse to the
  declared type.
\<close>

datatype 'a response = NetworkFailure string | Response bool string 'a

text \<open>
  The remote service is a parameter of the model: the answer to a submitted scan, and, for a
  task identifier, the answer to the \<open>n\<close>-th status fetch the client makes.
\<close>

record server =
  scan_endpoint :: "ScanRequest \<Rightarrow> string response"
  results_endpoint :: "string \<Rightarrow> nat \<Rightarrow> TaskResult response"

text \<open>
  The errors the client throws: \<^verbatim>\<open>new Error(message)\<close>, and the \<^verbatim>\<open>TypeError\<close> of a rejected
  \<^verbatim>\<open>fetch\<close>.
\<close>

datatype js_error = Error string | TypeError string

text \<open>
  The observable effects, in the order they happen: a scan posted, a status fetched for a task
  identifier, the observer \<^verbatim>\<open>onUpdate\<close> called with a snapshot, a \<^verbatim>\<open>setTimeout\<close> of so many
  milliseconds awaited.
\<close>

datatype event = Post ScanRequest | Fetch string | Update TaskResult | Sleep int

text \<open>
  The state the client runs in: how many status fetches the service has answered, the effects
  so far, and the state of the caller, which only the observer changes.
\<close>

record 'u world =
  fetched :: nat
  trace :: "event list"
  caller :: 'u

definition emit :: "event \<Rightarrow> 'u world \<Rightarrow> 'u world" where
  "emit e w = w\<lparr>trace := trace w @ [e]\<rparr>"

section \<open>The task client\<close>

definition startScan ::
  "server \<Rightarrow> ScanRequest \<Rightarrow> 'u world \<Rightarrow> (js_error + string) \<times> 'u world" where
  "startScan srv request w =
     (let w' = emit (Post request) w in
      case scan_endpoint srv request of
        NetworkFailure m \<Rightarrow> (Inl (TypeError m), w')
      | Response ok statusText body \<Rightarrow>
          if \<not> ok then (Inl (Error (''Scan request failed: '' @ statusText)), w')
          else (Inr body, w'))"

definition getResults ::
  "server \<Rightarrow> string \<Rightarrow> 'u world \<Rightarrow> (js_error + TaskResult) \<times> 'u world" where
  "getResults srv taskId w =
     (let w' = emit (Fetch taskId) (w\<lparr>fetched := fetched w + 1\<rparr>) in
      case results_endpoint srv taskId (fetched w) of
        NetworkFailure m \<Rightarrow> (Inl (TypeError m), w')
      | Response ok statusText body \<Rightarrow>
          if \<not> ok then (Inl (Error (''Results fetch failed: '' @ statusText)), w')
          else (Inr body, w'))"

text \<open>The call \<^verbatim>\<open>onUpdate(result)\<close>: the observer acts on the caller's state.\<close>

definition notify :: "(TaskResult \<Rightarrow> 'u \<Rightarrow> 'u) \<Rightarrow> TaskResult \<Rightarrow> 'u world \<Rightarrow> 'u world" where
  "notify onUpdate result w = emit (Update result) (w\<lparr>caller := onUpdate result (caller w)\<rparr>)"

text \<open>
  The loop of \<^verbatim>\<open>pollResults\<close>, from the value \<open>attempts\<close> of its counter. The attempt ceiling
  and the counter are integers: a ceiling that is not a whole number or not finite
  (with \<^verbatim>\<open>Infinity\<close> the loop need not end) is outside the model. The interval is only
  recorded.
\<close>

function pollResults_loop ::
  "server \<Rightarrow> string \<Rightarrow> (TaskResult \<Rightarrow> 'u \<Rightarrow> 'u) \<Rightarrow> int \<Rightarrow> int \<Rightarrow> int \<Rightarrow> 'u world
     \<Rightarrow> (js_error + TaskResult) \<times> 'u world" where
  "pollResults_loop srv taskId onUpdate intervalMs maxAttempts attempts w =
     (if attempts < maxAttempts then
        (case getResults srv taskId w of
           (Inl e, w1) \<Rightarrow> (Inl e, w1)
         | (Inr result, w1) \<Rightarrow>
             (let w2 = notify onUpdate result w1 in
              if status result = completed \<or> status result = failed then (Inr result, w2)
              else pollResults_loop srv taskId onUpdate intervalMs maxAttempts (attempts + 1)
                     (emit (Sleep intervalMs) w2)))
      else (Inl (Error ''Polling timed out''), w))"
  by pat_completeness auto
termination
  by (relation "measure (\<lambda>(srv, taskId, onUpdate, intervalMs, maxAttempts, attempts, w).
        nat (maxAttempts - attempts))") auto

definition pollResults ::
  "server \<Rightarrow> string \<Rightarrow> (TaskResult \<Rightarrow> 'u \<Rightarrow> 'u) \<Rightarrow> int \<Rightarrow> int \<Rightarrow> 'u world
     \<Rightarrow> (js_error + TaskResult) \<times> 'u world" where
  "pollResults srv taskId onUpdate intervalMs maxAttempts w =
     pollResults_loop srv taskId onUpdate intervalMs maxAttempts 0 w"

text \<open>The defaults of the two optional parameters: 2000 ms and 300 attempts.\<close>

definition pollResults_default ::
  "server \<Rightarrow> string \<Rightarrow> (TaskResult \<Rightarrow> 'u \<Rightarrow> 'u) \<Rightarrow> 'u world
     \<Rightarrow> (js_error + TaskResult) \<times> 'u world" where
  "pollResults_default srv taskId onUpdate w = pollResults srv taskId onUpdate 2000 300 w"

section \<open>The spread synthesizer (the chart effect of PairDetailModal)\<close>

text \<open>
  The four series handed to the chart. The random source is a parameter: \<open>random i\<close> is what
  the \<open>i\<close>-th call of \<^verbatim>\<open>Math.random()\<close> returns. So is the calendar: \<open>iso_day k\<close> is the ISO
  date of \<^verbatim>\<open>now\<close> moved by \<open>k\<close> days.
\<close>

record SpreadSeries =
  data :: "point list"
  upperBand :: "point list"
  lowerBand :: "point list"
  meanLine :: "point list"

definition days :: nat where
  "days = 252"

definition sigma :: jsnum where
  "sigma = Fin 1"

definition phi_of :: "jsnum \<Rightarrow> jsnum" where
  "phi_of halfLife = js_exp (js_div (js_neg (js_log (Fin 2))) halfLife)"

definition rollingSigma_of :: "jsnum \<Rightarrow> jsnum" where
  "rollingSigma_of halfLife =
     js_mul sigma (js_sqrt (js_div (Fin 1) (js_div (js_mul (Fin 2) (js_log (Fin 2))) halfLife)))"

text \<open>The right-hand side of the assignment to \<^verbatim>\<open>spread\<close> in the loop.\<close>

definition next_spread :: "jsnum \<Rightarrow> real \<Rightarrow> jsnum \<Rightarrow> jsnum" where
  "next_spread phi rnd spread =
     js_add (js_mul phi spread)
       (js_mul (js_mul (js_mul sigma (js_sub (Fin rnd) (Fin (1/2)))) (Fin 2))
          (js_sqrt (js_sub (Fin 1) (js_mul phi phi))))"

function synth_loop ::
  "(nat \<Rightarrow> real) \<Rightarrow> (int \<Rightarrow> string) \<Rightarrow> jsnum \<Rightarrow> jsnum \<Rightarrow> nat
     \<Rightarrow> jsnum \<times> SpreadSeries \<Rightarrow> jsnum \<times> SpreadSeries" where
  "synth_loop random iso_day halfLife phi i (spread, s) =
     (if i < days then
        (let day = iso_day (- (int days - int i));
             spread' = next_spread phi (random i) spread;
             rollingSigma = rollingSigma_of halfLife
         in synth_loop random iso_day halfLife phi (i + 1)
              (spread',
               \<lparr>data = data s @ [\<lparr>time = day, val = spread'\<rparr>],
                upperBand = upperBand s @ [\<lparr>time = day, val = js_mul (Fin 2) rollingSigma\<rparr>],
                lowerBand = lowerBand s @ [\<lparr>time = day, val = js_mul (Fin (- 2)) rollingSigma\<rparr>],
                meanLine = meanLine s @ [\<lparr>time = day, val = Fin 0\<rparr>]\<rparr>))
      else (spread, s))"
  by pat_completeness auto
termination
  by (relation "measure (\<lambda>(random, iso_day, halfLife, phi, i, st). days - i)") auto

text \<open>
  The synthesizer: the loop, then the anchor step. Writing \<^verbatim>\<open>data[data.length - 1].value\<close> on
  an empty array would throw a \<^verbatim>\<open>TypeError\<close>; the code has no other statement that throws.
  The selected \<^verbatim>\<open>pair\<close> is named \<open>selected\<close>.
\<close>

definition synthesize ::
  "(nat \<Rightarrow> real) \<Rightarrow> (int \<Rightarrow> string) \<Rightarrow> PairResult \<Rightarrow> js_error + SpreadSeries" where
  "synthesize random iso_day selected =
     (let halfLife = half_life selected;
          phi = phi_of halfLife;
          (spread, s) = synth_loop random iso_day halfLife phi 0
             (Fin 0, \<lparr>data = [], upperBand = [], lowerBand = [], meanLine = []\<rparr>);
          rollingSigma = rollingSigma_of halfLife
      in if data s = [] then Inl (TypeError ''Cannot set properties of undefined'')
         else Inr (s\<lparr>data := (data s)[length (data s) - 1 :=
                (data s ! (length (data s) - 1))\<lparr>val := js_mul (z_score selected) rollingSigma\<rparr>]\<rparr>))"

section \<open>The scan form\<close>

text \<open>
  Strings are lists of 8-bit characters. The model is exact on ASCII input: the white space
  of \<^verbatim>\<open>\s\<close> and of \<^verbatim>\<open>trim\<close> is tab, line feed, vertical tab, form feed, carriage return
  and space, and \<^verbatim>\<open>toUpperCase\<close> maps \<^verbatim>\<open>a\<close>..\<^verbatim>\<open>z\<close> to \<^verbatim>\<open>A\<close>..\<^verbatim>\<open>Z\<close> and leaves
  every other character alone.
\<close>

definition is_space :: "char \<Rightarrow> bool" where
  "is_space c = (c = CHR 0x09 \<or> c = CHR 0x0A \<or> c = CHR 0x0B \<or> c = CHR 0x0C \<or> c = CHR 0x0D
                 \<or> c = CHR '' '')"

text \<open>A character the pattern \<^verbatim>\<open>[,\s]\<close> matches.\<close>

definition is_separator :: "char \<Rightarrow> bool" where
  "is_separator c = (c = CHR '','' \<or> is_space c)"

text \<open>
  \<^verbatim>\<open>split(/[,\s]+/)\<close>: the pieces between the maximal runs of separators, the empty pieces at
  either end included; \<open>cur\<close> is the piece being read.
\<close>

function split_from :: "string \<Rightarrow> string \<Rightarrow> string list" where
  "split_from cur [] = [cur]"
| "split_from cur (c # cs) =
     (if is_separator c then cur # split_from [] (dropWhile is_separator cs)
      else split_from (cur @ [c]) cs)"
  by pat_completeness auto
termination
  by (relation "measure (\<lambda>(cur, cs). length cs)")
     (auto simp: less_Suc_eq_le length_dropWhile_le)

definition split_separators :: "string \<Rightarrow> string list" where
  "split_separators s = split_from [] s"

definition trim :: "string \<Rightarrow> string" where
  "trim s = rev (dropWhile is_space (rev (dropWhile is_space s)))"

definition upper_char :: "char \<Rightarrow> char" where
  "upper_char c =
     (let n = (of_char c :: nat) in if 97 \<le> n \<and> n \<le> 122 then char_of (n - 32) else c)"

definition toUpperCase :: "string \<Rightarrow> string" where
  "toUpperCase s = map upper_char s"

text \<open>
  The state of the form; its \<^verbatim>\<open>period\<close> is named \<open>form_period\<close>. The presets play no part in
  a scan.
\<close>

record ScanForm =
  tickerInput :: string
  form_period :: string
  startDate :: string
  endDate :: string

text \<open>The arguments of a call of \<^verbatim>\<open>onScan\<close>; an argument left out is \<open>None\<close>.\<close>

record onScan_call =
  call_tickers :: "string list"
  call_period :: string
  call_startDate :: "string option"
  call_endDate :: "string option"

definition normalized_tickers :: "string \<Rightarrow> string list" where
  "normalized_tickers input =
     filter (\<lambda>t. t \<noteq> []) (map (\<lambda>t. toUpperCase (trim t)) (split_separators input))"

text \<open>The form's \<^verbatim>\<open>handleScan\<close>: the call of \<^verbatim>\<open>onScan\<close> it makes, if any.\<close>

definition ScanForm_handleScan :: "ScanForm \<Rightarrow> onScan_call option" where
  "ScanForm_handleScan form =
     (let tks = normalized_tickers (tickerInput form) in
      if 2 \<le> length tks then
        (if form_period form = ''custom''
         then Some \<lparr>call_tickers = tks, call_period = form_period form,
                call_startDate = Some (startDate form), call_endDate = Some (endDate form)\<rparr>
         else Some \<lparr>call_tickers = tks, call_period = form_period form,
                call_startDate = None, call_endDate = None\<rparr>)
      else None)"

section \<open>The page\<close>

text \<open>
  The state of the page \<^verbatim>\<open>Home\<close>; \<^verbatim>\<open>results\<close> and \<^verbatim>\<open>error\<close> are named \<open>home_results\<close> and
  \<open>home_error\<close>.
\<close>

record Home =
  home_results :: "PairResult list"
  isScanning :: bool
  selectedPair :: "PairResult option"
  scanStatus :: string
  home_error :: string

definition update_caller :: "('u \<Rightarrow> 'u) \<Rightarrow> 'u world \<Rightarrow> 'u world" where
  "update_caller f w = w\<lparr>caller := f (caller w)\<rparr>"

definition message :: "js_error \<Rightarrow> string" where
  "message e = (case e of Error m \<Rightarrow> m | TypeError m \<Rightarrow> m)"

definition digit_char :: "nat \<Rightarrow> char" where
  "digit_char d = char_of (48 + d)"

function string_of_nat :: "nat \<Rightarrow> string" where
  "string_of_nat n =
     (if n < 10 then [digit_char n] else string_of_nat (n div 10) @ [digit_char (n mod 10)])"
  by pat_completeness auto
termination
  by (relation "measure id") auto

text \<open>The observer the page passes to \<^verbatim>\<open>pollResults\<close>.\<close>

definition Home_onUpdate :: "TaskResult \<Rightarrow> Home \<Rightarrow> Home" where
  "Home_onUpdate update h =
     (if status update = processing
      then h\<lparr>scanStatus := ''Analyzing cointegration & running Monte Carlo...''\<rparr> else h)"

text \<open>The \<^verbatim>\<open>catch\<close> block: every error thrown is an \<^verbatim>\<open>Error\<close>, so its message is shown.\<close>

definition Home_catch :: "js_error \<Rightarrow> Home world \<Rightarrow> Home world" where
  "Home_catch err w = update_caller (\<lambda>h. h\<lparr>home_error := message err, scanStatus := []\<rparr>) w"

text \<open>What the page does with the snapshot \<^verbatim>\<open>pollResults\<close> returned.\<close>

definition Home_show :: "TaskResult \<Rightarrow> Home \<Rightarrow> Home" where
  "Home_show result h =
     (if status result = completed then
        h\<lparr>home_results := results result,
          scanStatus :=
            (if 0 < length (results result)
             then ''Found '' @ string_of_nat (length (results result)) @ '' actionable pair''
                  @ (if 1 < length (results result) then ''s'' else [])
             else ''No pairs met the Z > 2.0 threshold'')\<rparr>
      else if status result = failed then
        h\<lparr>home_error := (case error result of
                            None \<Rightarrow> ''Scan failed unexpectedly''
                          | Some m \<Rightarrow> if m = [] then ''Scan failed unexpectedly'' else m),
          scanStatus := []\<rparr>
      else h)"

text \<open>
  The page's \<^verbatim>\<open>handleScan(tickers, period)\<close>. It is the form's \<^verbatim>\<open>onScan\<close>; it has two
  parameters, so the third and fourth argument of a call are dropped. The dash of the second
  status line is written as its three UTF-8 bytes.
\<close>

definition Home_handleScan :: "server \<Rightarrow> onScan_call \<Rightarrow> Home world \<Rightarrow> Home world" where
  "Home_handleScan srv call w =
     (let w0 = update_caller (\<lambda>h. h\<lparr>isScanning := True, home_results := [], home_error := [],
                  scanStatus := ''Starting scan...''\<rparr>) w;
          w' = (case startScan srv \<lparr>tickers = call_tickers call, period = call_period call,
                       interval = None, start_date = None, end_date = None\<rparr> w0 of
                  (Inl err, w1) \<Rightarrow> Home_catch err w1
                | (Inr taskId, w1) \<Rightarrow>
                    (let w2 = update_caller (\<lambda>h. h\<lparr>scanStatus := ''Scanning pairs ''
                                 @ [CHR 0xE2, CHR 0x80, CHR 0x94]
                                 @ '' this may take a moment...''\<rparr>) w1
                     in case pollResults_default srv taskId Home_onUpdate w2 of
                          (Inl err, w3) \<Rightarrow> Home_catch err w3
                        | (Inr result, w3) \<Rightarrow> update_caller (Home_show result) w3))
      in update_caller (\<lambda>h. h\<lparr>isScanning := False\<rparr>) w')"

text \<open>
  A click on the button "Run Scan", which is disabled while a scan runs and while the trimmed
  input is empty.
\<close>

definition run_scan_click :: "server \<Rightarrow> ScanForm \<Rightarrow> Home world \<Rightarrow> Home world" where
  "run_scan_click srv form w =
     (if isScanning (caller w) \<or> length (trim (tickerInput form)) = 0 then w
      else case ScanForm_handleScan form of
             None \<Rightarrow> w
           | Some call \<Rightarrow> Home_handleScan srv call w)"

section \<open>Vocabulary for the task client's properties\<close>

text \<open>The snapshots the observer was called with, in order.\<close>

fun observed :: "event list \<Rightarrow> TaskResult list" where
  "observed [] = []"
| "observed (Update r # es) = r # observed es"
| "observed (e # es) = observed es"

text \<open>What the \<open>n\<close>-th status fetch for a task identifier gives the client.\<close>

definition snapshot :: "server \<Rightarrow> string \<Rightarrow> nat \<Rightarrow> js_error + TaskResult" where
  "snapshot srv taskId n =
     fst (getResults srv taskId \<lparr>fetched = n, trace = [], caller = ()\<rparr>)"

definition is_terminal :: "status \<Rightarrow> bool" where
  "is_terminal s = (s = completed \<or> s = failed)"

text \<open>
  The effects of one round of the loop that ends in a wait, and of \<open>n\<close> such rounds from the
  fetch numbered \<open>first\<close>.
\<close>

definition round_events :: "server \<Rightarrow> string \<Rightarrow> int \<Rightarrow> nat \<Rightarrow> event list" where
  "round_events srv taskId intervalMs n =
     [Fetch taskId, Update (projr (snapshot srv taskId n)), Sleep intervalMs]"

definition rounds :: "server \<Rightarrow> string \<Rightarrow> int \<Rightarrow> nat \<Rightarrow> nat \<Rightarrow> event list" where
  "rounds srv taskId intervalMs first n =
     concat (map (round_events srv taskId intervalMs) [first..<first + n])"

text \<open>
  Two services to run the client on: one whose task is processing, then not found, then
  completed, and one whose task is processing for ever; and an observer that does nothing.
\<close>

definition snapshot_with :: "status \<Rightarrow> TaskResult" where
  "snapshot_with s = \<lparr>task_id = ''t1'', status = s, results = [], error = None\<rparr>"

definition flip_server :: server where
  "flip_server =
     \<lparr>scan_endpoint = (\<lambda>request. Response True ''OK'' ''t1''),
      results_endpoint = (\<lambda>taskId n. Response True ''OK''
         (snapshot_with (if n = 0 then processing else if n = 1 then not_found else completed)))\<rparr>"

definition stuck_server :: server where
  "stuck_server =
     \<lparr>scan_endpoint = (\<lambda>request. Response True ''OK'' ''t1''),
      results_endpoint = (\<lambda>taskId n. Response True ''OK'' (snapshot_with processing))\<rparr>"

definition ignore :: "TaskResult \<Rightarrow> unit \<Rightarrow> unit" where
  "ignore result u = u"

text \<open>
  An observer that keeps every snapshot it is called with, in order, and the state of its
  caller before the first poll.
\<close>

definition remember :: "TaskResult \<Rightarrow> TaskResult list \<Rightarrow> TaskResult list" where
  "remember result seen = seen @ [result]"

definition listening :: "TaskResult list world" where
  "listening = \<lparr>fetched = 0, trace = [], caller = []\<rparr>"

section \<open>Vocabulary for the synthesizer's properties\<close>

text \<open>
  The value of \<^verbatim>\<open>spread\<close> after \<open>n\<close> rounds of the loop, the date of round \<open>i\<close>, the path
  the loop builds, a constant band, and the point the anchor step writes.
\<close>

fun spread_at :: "(nat \<Rightarrow> real) \<Rightarrow> jsnum \<Rightarrow> nat \<Rightarrow> jsnum" where
  "spread_at random phi 0 = Fin 0"
| "spread_at random phi (Suc n) = next_spread phi (random n) (spread_at random phi n)"

definition day_at :: "(int \<Rightarrow> string) \<Rightarrow> nat \<Rightarrow> string" where
  "day_at iso_day i = iso_day (- (int days - int i))"

definition path :: "(nat \<Rightarrow> real) \<Rightarrow> (int \<Rightarrow> string) \<Rightarrow> jsnum \<Rightarrow> point list" where
  "path random iso_day phi =
     map (\<lambda>j. \<lparr>time = day_at iso_day j, val = spread_at random phi (Suc j)\<rparr>) [0..<days]"

definition band :: "(int \<Rightarrow> string) \<Rightarrow> jsnum \<Rightarrow> point list" where
  "band iso_day v = map (\<lambda>j. \<lparr>time = day_at iso_day j, val = v\<rparr>) [0..<days]"

definition anchor :: "(int \<Rightarrow> string) \<Rightarrow> PairResult \<Rightarrow> point" where
  "anchor iso_day selected =
     \<lparr>time = day_at iso_day (days - 1),
      val = js_mul (z_score selected) (rollingSigma_of (half_life selected))\<rparr>"

text \<open>
  A result with a given half-life and z-score, two random sources and a calendar, to run the
  synthesizer on.
\<close>

definition sample_pair :: "jsnum \<Rightarrow> jsnum \<Rightarrow> PairResult" where
  "sample_pair halfLife z =
     \<lparr>pair = ''AAPL/MSFT'', combo = ''Sell AAPL, buy MSFT'', method_name = ''Both'',
      price_corr = Fin 0.9, z_score = z, half_life = halfLife, move_to_mean = Fin 1,
      exp_return = Fin 2, unit_price = Fin 100, hurst = Fin 0.3, prob_profit = Fin 70,
      prob_profit_low = Fin 60, prob_profit_high = Fin 80, same_sector = ''Yes'',
      extreme_z_in_hl = ''No'', extreme_z_detail = [], profitable_since_extreme = ''N/A'',
      pnl_since_extreme = Fin 0, historical_z_scores = []\<rparr>"

definition zero_draws :: "nat \<Rightarrow> real" where
  "zero_draws i = 0"

definition half_draws :: "nat \<Rightarrow> real" where
  "half_draws i = 1/2"

definition day_label :: "int \<Rightarrow> string" where
  "day_label k = (if k = - 1 then ''yesterday'' else ''earlier'')"

section \<open>Vocabulary for the form's and the page's properties\<close>

text \<open>The scan requests posted, in order, and those a click on "Run Scan" adds.\<close>

fun posts :: "event list \<Rightarrow> ScanRequest list" where
  "posts [] = []"
| "posts (Post r # es) = r # posts es"
| "posts (e # es) = posts es"

definition posted_by_click :: "server \<Rightarrow> ScanForm \<Rightarrow> Home world \<Rightarrow> ScanRequest list" where
  "posted_by_click srv form w =
     drop (length (posts (trace w))) (posts (trace (run_scan_click srv form w)))"

text \<open>The page as it is first rendered, before any request.\<close>

definition fresh :: "Home world" where
  "fresh = \<lparr>fetched = 0, trace = [],
            caller = \<lparr>home_results = [], isScanning = False, selectedPair = None,
                       scanStatus = [], home_error = []\<rparr>\<rparr>"

text \<open>The request the page builds from a call of \<^verbatim>\<open>onScan\<close>.\<close>

definition request_of :: "onScan_call \<Rightarrow> ScanRequest" where
  "request_of call = \<lparr>tickers = call_tickers call, period = call_period call,
       interval = None, start_date = None, end_date = None\<rparr>"

text \<open>A form with the period \<^verbatim>\<open>custom\<close> selected.\<close>

definition custom_form :: "string \<Rightarrow> string \<Rightarrow> string \<Rightarrow> ScanForm" where
  "custom_form input start end_day =
     \<lparr>tickerInput = input, form_period = ''custom'', startDate = start, endDate = end_day\<rparr>"

section \<open>Vocabulary for the variance of the synthesized path\<close>

text \<open>
  The law of the path. \<^verbatim>\<open>Math.random()\<close> is taken to return one of the \<open>N\<close> numbers
  \<open>0, 1/N, ..., (N-1)/N\<close>, each as likely as the others, independently at each call
  (\<open>N\<close> is the resolution of the generator, \<open>2 ^ 53\<close> or \<open>2 ^ 52\<close> in practice). The
  sequences of \<open>n\<close> draws are then equally likely, and the mean and the variance of the
  spread after \<open>n\<close> rounds are averages over them.
\<close>

definition grid :: "nat \<Rightarrow> real list" where
  "grid N = map (\<lambda>k. real k / real N) [0..<N]"

fun draw_seqs :: "nat \<Rightarrow> nat \<Rightarrow> real list list" where
  "draw_seqs N 0 = [[]]"
| "draw_seqs N (Suc n) = concat (map (\<lambda>us. map (\<lambda>u. us @ [u]) (grid N)) (draw_seqs N n))"

text \<open>The real a finite number stands for, and the spread the code computes from given draws.\<close>

definition fin_val :: "jsnum \<Rightarrow> real" where
  "fin_val x = (case x of Fin r \<Rightarrow> r | _ \<Rightarrow> 0)"

definition spread_of :: "jsnum \<Rightarrow> real list \<Rightarrow> jsnum" where
  "spread_of phi us = spread_at (\<lambda>i. us ! i) phi (length us)"

definition spread_mean :: "nat \<Rightarrow> jsnum \<Rightarrow> nat \<Rightarrow> real" where
  "spread_mean N halfLife n =
     sum_list (map (\<lambda>us. fin_val (spread_of (phi_of halfLife) us)) (draw_seqs N n))
       / real (N ^ n)"

definition spread_variance :: "nat \<Rightarrow> jsnum \<Rightarrow> nat \<Rightarrow> real" where
  "spread_variance N halfLife n =
     sum_list (map (\<lambda>us. (fin_val (spread_of (phi_of halfLife) us))\<^sup>2) (draw_seqs N n))
       / real (N ^ n)
     - (spread_mean N halfLife n)\<^sup>2"

section \<open>Properties of the task client\<close>

declare pollResults_loop.simps [simp del]

lemma observed_append: "observed (xs @ ys) = observed xs @ observed ys"
  by (induction xs rule: observed.induct) auto

lemma getResults_world:
  "getResults srv taskId w = (out, w') \<Longrightarrow>
     out = snapshot srv taskId (fetched w) \<and> w' = emit (Fetch taskId) (w\<lparr>fetched := fetched w + 1\<rparr>)"
  by (auto simp: getResults_def snapshot_def Let_def emit_def split: response.splits if_splits)

lemma loop_step:
  "pollResults_loop srv taskId onUpdate intervalMs maxAttempts attempts w =
     (if attempts < maxAttempts then
        (let w1 = emit (Fetch taskId) (w\<lparr>fetched := fetched w + 1\<rparr>) in
         case snapshot srv taskId (fetched w) of
           Inl e \<Rightarrow> (Inl e, w1)
         | Inr result \<Rightarrow>
             if status result = completed \<or> status result = failed
             then (Inr result, notify onUpdate result w1)
             else pollResults_loop srv taskId onUpdate intervalMs maxAttempts (attempts + 1)
                    (emit (Sleep intervalMs) (notify onUpdate result w1)))
      else (Inl (Error ''Polling timed out''), w))"
proof -
  obtain out w1 where g: "getResults srv taskId w = (out, w1)"
    by (cases "getResults srv taskId w")
  from getResults_world[OF g] show ?thesis
    by (subst pollResults_loop.simps) (simp add: g Let_def split: sum.splits)
qed

lemma loop_returns:
  "pollResults_loop srv taskId onUpdate intervalMs maxAttempts attempts w = (Inr r, w') \<Longrightarrow>
     is_terminal (status r) \<and> (\<exists>pre. trace w' = pre @ [Update r])"
proof (induction srv taskId onUpdate intervalMs maxAttempts attempts w
       rule: pollResults_loop.induct)
  case (1 srv taskId onUpdate intervalMs maxAttempts attempts w)
  show ?case
  proof (cases "attempts < maxAttempts")
    case False
    with "1.prems" show ?thesis by (simp add: pollResults_loop.simps)
  next
    case True
    obtain out w1 where g: "getResults srv taskId w = (out, w1)"
      by (cases "getResults srv taskId w")
    show ?thesis
    proof (cases out)
      case (Inl e)
      with "1.prems" True g show ?thesis by (simp add: pollResults_loop.simps)
    next
      case (Inr result)
      show ?thesis
      proof (cases "status result = completed \<or> status result = failed")
        case t: True
        with "1.prems" True g Inr have "r = result" "w' = notify onUpdate result w1"
          by (auto simp add: pollResults_loop.simps Let_def)
        with t show ?thesis by (auto simp: emit_def notify_def is_terminal_def)
      next
        case f: False
        with "1.prems" True g Inr have
          "pollResults_loop srv taskId onUpdate intervalMs maxAttempts (attempts + 1)
             (emit (Sleep intervalMs) (notify onUpdate result w1)) = (Inr r, w')"
          by (simp add: pollResults_loop.simps[of _ _ _ _ _ attempts] Let_def)
        with "1.IH"[OF True g[symmetric] Inr refl f] show ?thesis by simp
      qed
    qed
  qed
qed

lemma loop_returns_last:
  assumes "pollResults_loop srv taskId onUpdate intervalMs maxAttempts attempts w = (Inr r, w')"
  shows "is_terminal (status r) \<and> (\<exists>pre. trace w' = pre @ [Update r])
         \<and> last (observed (trace w')) = r"
proof -
  from loop_returns[OF assms] obtain pre where
    t: "is_terminal (status r)" and p: "trace w' = pre @ [Update r]"
    by blast
  from p have "observed (trace w') = observed pre @ [r]" by (simp add: observed_append)
  with t p show ?thesis by simp
qed

lemma loop_all_pending:
  "(\<forall>n. int n < maxAttempts - attempts \<longrightarrow>
      (\<exists>r. snapshot srv taskId (fetched w + n) = Inr r \<and> \<not> is_terminal (status r))) \<Longrightarrow>
   pollResults_loop srv taskId onUpdate intervalMs maxAttempts attempts w = (out, w') \<Longrightarrow>
     out = Inl (Error ''Polling timed out'')
     \<and> fetched w' = fetched w + nat (maxAttempts - attempts)
     \<and> trace w' = trace w @ rounds srv taskId intervalMs (fetched w) (nat (maxAttempts - attempts))"
proof (induction srv taskId onUpdate intervalMs maxAttempts attempts w
       rule: pollResults_loop.induct)
  case (1 srv taskId onUpdate intervalMs maxAttempts attempts w)
  show ?case
  proof (cases "attempts < maxAttempts")
    case False
    with "1.prems"(2) show ?thesis by (subst (asm) loop_step) (simp add: rounds_def)
  next
    case True
    obtain o1 w1 where g: "getResults srv taskId w = (o1, w1)"
      by (cases "getResults srv taskId w")
    note gw = getResults_world[OF g]
    from "1.prems"(1)[rule_format, of 0] True obtain r where
      r: "snapshot srv taskId (fetched w) = Inr r" "\<not> is_terminal (status r)" by auto
    from r gw have o1: "o1 = Inr r" by simp
    from r have nt: "\<not> (status r = completed \<or> status r = failed)"
      by (auto simp: is_terminal_def)
    let ?w' = "emit (Sleep intervalMs) (notify onUpdate r w1)"
    have fw: "fetched ?w' = fetched w + 1" using gw by (simp add: emit_def notify_def)
    have tw: "trace ?w' = trace w @ round_events srv taskId intervalMs (fetched w)"
      using gw r by (simp add: emit_def notify_def round_events_def)
    have pre: "\<forall>n. int n < maxAttempts - (attempts + 1) \<longrightarrow>
        (\<exists>r. snapshot srv taskId (fetched ?w' + n) = Inr r \<and> \<not> is_terminal (status r))"
    proof (intro allI impI)
      fix n assume "int n < maxAttempts - (attempts + 1)"
      then have "int (Suc n) < maxAttempts - attempts" by simp
      from "1.prems"(1)[rule_format, OF this] show
        "\<exists>r. snapshot srv taskId (fetched ?w' + n) = Inr r \<and> \<not> is_terminal (status r)"
        by (simp add: fw)
    qed
    have n: "nat (maxAttempts - attempts) = Suc (nat (maxAttempts - (attempts + 1)))"
      using True by simp
    have "pollResults_loop srv taskId onUpdate intervalMs maxAttempts attempts w =
          pollResults_loop srv taskId onUpdate intervalMs maxAttempts (attempts + 1) ?w'"
      using True r nt gw by (subst loop_step) (simp add: Let_def)
    with "1.prems"(2) have
      "pollResults_loop srv taskId onUpdate intervalMs maxAttempts (attempts + 1) ?w' = (out, w')"
      by simp
    from "1.IH"[OF True g[symmetric] o1 refl nt pre this] show ?thesis
      by (simp add: fw tw n rounds_def upt_conv_Cons del: upt_Suc)
  qed
qed

lemma rounds_Suc:
  "rounds srv taskId intervalMs first (Suc n) =
     rounds srv taskId intervalMs first n @ round_events srv taskId intervalMs (first + n)"
  by (simp add: rounds_def)

lemma rounds_counts:
  "length (filter (\<lambda>e. e = Fetch taskId) (rounds srv taskId intervalMs first n)) = n
   \<and> length (observed (rounds srv taskId intervalMs first n)) = n
   \<and> length (filter (\<lambda>e. e = Sleep intervalMs) (rounds srv taskId intervalMs first n)) = n"
proof (induction n)
  case 0
  show ?case by (simp add: rounds_def)
next
  case (Suc n)
  then show ?case by (simp add: rounds_Suc round_events_def observed_append)
qed

lemma loop_run:
  "pollResults_loop srv taskId onUpdate intervalMs maxAttempts attempts w = (out, w') \<Longrightarrow>
     \<exists>new. trace w' = trace w @ new
       \<and> caller w' = foldl (\<lambda>u r. onUpdate r u) (caller w) (observed new)
       \<and> (\<forall>r. out = Inr r \<longrightarrow> (\<exists>pre. new = pre @ [Update r]))"
proof (induction srv taskId onUpdate intervalMs maxAttempts attempts w
       rule: pollResults_loop.induct)
  case (1 srv taskId onUpdate intervalMs maxAttempts attempts w)
  show ?case
  proof (cases "attempts < maxAttempts")
    case False
    with "1.prems" have "out = Inl (Error ''Polling timed out'')" and "w' = w"
      by (subst (asm) loop_step, simp)+
    then show ?thesis by simp
  next
    case True
    obtain o1 w1 where g: "getResults srv taskId w = (o1, w1)"
      by (cases "getResults srv taskId w")
    note gw = getResults_world[OF g]
    then have t1: "trace w1 = trace w @ [Fetch taskId]" and c1: "caller w1 = caller w"
      by (simp_all add: emit_def)
    show ?thesis
    proof (cases o1)
      case (Inl e)
      with gw have sn: "snapshot srv taskId (fetched w) = Inl e" by simp
      from "1.prems" True have "out = Inl e" and "w' = w1"
        using gw by (subst (asm) loop_step, simp add: Let_def sn)+
      with t1 c1 show ?thesis by simp
    next
      case (Inr result)
      with gw have sn: "snapshot srv taskId (fetched w) = Inr result" by simp
      let ?w2 = "notify onUpdate result w1"
      have t2: "trace ?w2 = trace w @ [Fetch taskId, Update result]"
        and c2: "caller ?w2 = onUpdate result (caller w)"
        using t1 c1 by (simp_all add: notify_def emit_def)
      show ?thesis
      proof (cases "status result = completed \<or> status result = failed")
        case t: True
        with "1.prems" True gw have "out = Inr result" and "w' = ?w2"
          by (subst (asm) loop_step, simp add: Let_def sn)+
        with t2 c2 show ?thesis by simp
      next
        case f: False
        let ?w3 = "emit (Sleep intervalMs) ?w2"
        have t3: "trace ?w3 = trace w @ [Fetch taskId, Update result, Sleep intervalMs]"
          and c3: "caller ?w3 = onUpdate result (caller w)"
          using t2 c2 by (simp_all add: emit_def)
        from f "1.prems" True gw have
          "pollResults_loop srv taskId onUpdate intervalMs maxAttempts (attempts + 1) ?w3
             = (out, w')"
          by (subst (asm) loop_step) (simp add: Let_def sn)
        from "1.IH"[OF True g[symmetric] Inr refl f this] obtain new where
          n: "trace w' = trace ?w3 @ new"
            "caller w' = foldl (\<lambda>u r. onUpdate r u) (caller ?w3) (observed new)"
            "\<forall>r. out = Inr r \<longrightarrow> (\<exists>pre. new = pre @ [Update r])"
          by blast
        let ?new = "[Fetch taskId, Update result, Sleep intervalMs] @ new"
        from n t3 c3 have "trace w' = trace w @ ?new"
          and "caller w' = foldl (\<lambda>u r. onUpdate r u) (caller w) (observed ?new)"
          by simp_all
        moreover from n(3) have "\<forall>r. out = Inr r \<longrightarrow> (\<exists>pre. ?new = pre @ [Update r])"
          by (metis append.assoc)
        ultimately show ?thesis by blast
      qed
    qed
  qed
qed

lemma loop_returns_caller:
  assumes "pollResults_loop srv taskId onUpdate intervalMs maxAttempts attempts w = (Inr r, w')"
  shows "\<exists>u. caller w' = onUpdate r u"
proof -
  from loop_run[OF assms] obtain new pre where
    "caller w' = foldl (\<lambda>u r. onUpdate r u) (caller w) (observed new)"
    and "new = pre @ [Update r]" by blast
  then have "caller w' = onUpdate r (foldl (\<lambda>u r. onUpdate r u) (caller w) (observed pre))"
    by (simp add: observed_append)
  then show ?thesis by blast
qed

lemma observed_rounds:
  "observed (rounds srv taskId intervalMs first n)
     = map (\<lambda>k. projr (snapshot srv taskId k)) [first..<first + n]"
  by (induction n) (simp_all add: rounds_def round_events_def observed_append)

lemma loop_all_pending_caller:
  assumes "\<forall>n. int n < maxAttempts - attempts \<longrightarrow>
      (\<exists>r. snapshot srv taskId (fetched w + n) = Inr r \<and> \<not> is_terminal (status r))"
    and "pollResults_loop srv taskId onUpdate intervalMs maxAttempts attempts w = (out, w')"
  shows "caller w' = foldl (\<lambda>u n. onUpdate (projr (snapshot srv taskId n)) u) (caller w)
           [fetched w..<fetched w + nat (maxAttempts - attempts)]"
proof -
  from loop_run[OF assms(2)] obtain new where
    n: "trace w' = trace w @ new"
       "caller w' = foldl (\<lambda>u r. onUpdate r u) (caller w) (observed new)" by blast
  from loop_all_pending[OF assms] n(1) have
    "new = rounds srv taskId intervalMs (fetched w) (nat (maxAttempts - attempts))" by simp
  with n(2) show ?thesis by (simp add: observed_rounds foldl_map)
qed

lemma flip_heard:
  "pollResults flip_server ''t1'' remember 2000 300 listening =
     (Inr (snapshot_with completed),
      \<lparr>fetched = 3, trace = [Fetch ''t1'', Update (snapshot_with processing), Sleep 2000,
         Fetch ''t1'', Update (snapshot_with not_found), Sleep 2000,
         Fetch ''t1'', Update (snapshot_with completed)],
       caller = [snapshot_with processing, snapshot_with not_found, snapshot_with completed]\<rparr>)"
  by (simp add: pollResults_def loop_step snapshot_def getResults_def emit_def notify_def
      flip_server_def snapshot_with_def listening_def remember_def Let_def)

lemma stuck_pending_listening:
  "\<forall>n. int n < 2 \<longrightarrow>
     (\<exists>r. snapshot stuck_server ''t1'' (fetched listening + n) = Inr r
          \<and> \<not> is_terminal (status r))"
  by (simp add: snapshot_def getResults_def stuck_server_def snapshot_with_def
      is_terminal_def Let_def)

text \<open>
  C1: whatever the task identifier, the observer, the poll interval and the attempt ceiling, a
  snapshot that \<^verbatim>\<open>pollResults\<close> returns is terminal (completed or failed) and is the last one
  the observer was called with: that call is the last effect of the run, and the caller's
  state is what the observer made of that snapshot. In every run the caller's state is the
  observer applied, in order, to the snapshots polled. When every poll up to the ceiling
  answers with a status that is not terminal, the call fails with the error
  "Polling timed out" (the spec's PollTimeoutError). The loop is a total function, so one of
  the outcomes always occurs.
\<close>

theorem pollResults_terminal_or_timeout:
  assumes "pollResults srv taskId onUpdate intervalMs maxAttempts w = (out, w')"
  shows "(\<forall>r. out = Inr r \<longrightarrow>
            is_terminal (status r) \<and> (\<exists>pre. trace w' = pre @ [Update r])
            \<and> last (observed (trace w')) = r
            \<and> (\<exists>u. caller w' = onUpdate r u))
       \<and> (\<exists>new. trace w' = trace w @ new
            \<and> caller w' = foldl (\<lambda>u r. onUpdate r u) (caller w) (observed new))
       \<and> ((\<forall>n. int n < maxAttempts \<longrightarrow>
              (\<exists>r. snapshot srv taskId (fetched w + n) = Inr r \<and> \<not> is_terminal (status r)))
            \<longrightarrow> out = Inl (Error ''Polling timed out''))"
proof (intro conjI allI impI)
  fix r assume "out = Inr r"
  with assms have
    l: "pollResults_loop srv taskId onUpdate intervalMs maxAttempts 0 w = (Inr r, w')"
    by (simp add: pollResults_def)
  from loop_returns_last[OF l] show "is_terminal (status r)"
    and "\<exists>pre. trace w' = pre @ [Update r]" and "last (observed (trace w')) = r"
    by blast+
  from loop_returns_caller[OF l] show "\<exists>u. caller w' = onUpdate r u" .
next
  from assms have
    l: "pollResults_loop srv taskId onUpdate intervalMs maxAttempts 0 w = (out, w')"
    by (simp add: pollResults_def)
  from loop_run[OF l] show "\<exists>new. trace w' = trace w @ new
            \<and> caller w' = foldl (\<lambda>u r. onUpdate r u) (caller w) (observed new)"
    by blast
next
  assume "\<forall>n. int n < maxAttempts \<longrightarrow>
     (\<exists>r. snapshot srv taskId (fetched w + n) = Inr r \<and> \<not> is_terminal (status r))"
  then have p: "\<forall>n. int n < maxAttempts - 0 \<longrightarrow>
     (\<exists>r. snapshot srv taskId (fetched w + n) = Inr r \<and> \<not> is_terminal (status r))" by simp
  from assms have
    l: "pollResults_loop srv taskId onUpdate intervalMs maxAttempts 0 w = (out, w')"
    by (simp add: pollResults_def)
  from loop_all_pending[OF p l] show "out = Inl (Error ''Polling timed out'')"
    by simp
qed

theorem pollResults_terminal_or_timeout_witness:
  "pollResults flip_server ''t1'' remember 2000 300 listening =
     (Inr (snapshot_with completed),
      \<lparr>fetched = 3, trace = [Fetch ''t1'', Update (snapshot_with processing), Sleep 2000,
         Fetch ''t1'', Update (snapshot_with not_found), Sleep 2000,
         Fetch ''t1'', Update (snapshot_with completed)],
       caller = [snapshot_with processing, snapshot_with not_found, snapshot_with completed]\<rparr>)
   \<and> is_terminal (status (snapshot_with completed))
   \<and> last (observed [Fetch ''t1'', Update (snapshot_with processing), Sleep 2000,
         Fetch ''t1'', Update (snapshot_with not_found), Sleep 2000,
         Fetch ''t1'', Update (snapshot_with completed)]) = snapshot_with completed
   \<and> (\<exists>u. [snapshot_with processing, snapshot_with not_found, snapshot_with completed]
            = remember (snapshot_with completed) u)
   \<and> fst (pollResults stuck_server ''t1'' remember 2000 2 listening)
       = Inl (Error ''Polling timed out'')"
proof -
  have s: "pollResults stuck_server ''t1'' remember 2000 2 listening =
     (fst (pollResults stuck_server ''t1'' remember 2000 2 listening),
      snd (pollResults stuck_server ''t1'' remember 2000 2 listening))" by simp
  from pollResults_terminal_or_timeout[OF flip_heard] pollResults_terminal_or_timeout[OF s]
    stuck_pending_listening flip_heard
  show ?thesis by simp
qed

text \<open>
  C10: when every status fetch answers with a status that is not terminal, the loop makes
  exactly \<open>maxAttempts\<close> fetches, calls the observer exactly \<open>maxAttempts\<close> times (the
  caller's state is the observer applied to the \<open>maxAttempts\<close> snapshots polled, in order),
  waits \<open>maxAttempts\<close> times, and its last effect before the timeout error is the wait that
  follows the last poll.
\<close>

theorem pollResults_timeout_after_full_wait:
  assumes "\<forall>n. int n < maxAttempts \<longrightarrow>
     (\<exists>r. snapshot srv taskId (fetched w + n) = Inr r \<and> \<not> is_terminal (status r))"
  shows "fst (pollResults srv taskId onUpdate intervalMs maxAttempts w)
           = Inl (Error ''Polling timed out'')
       \<and> fetched (snd (pollResults srv taskId onUpdate intervalMs maxAttempts w))
           = fetched w + nat maxAttempts
       \<and> trace (snd (pollResults srv taskId onUpdate intervalMs maxAttempts w))
           = trace w @ rounds srv taskId intervalMs (fetched w) (nat maxAttempts)
       \<and> caller (snd (pollResults srv taskId onUpdate intervalMs maxAttempts w))
           = foldl (\<lambda>u n. onUpdate (projr (snapshot srv taskId n)) u) (caller w)
               [fetched w..<fetched w + nat maxAttempts]
       \<and> length (filter (\<lambda>e. e = Fetch taskId)
             (rounds srv taskId intervalMs (fetched w) (nat maxAttempts))) = nat maxAttempts
       \<and> length (observed (rounds srv taskId intervalMs (fetched w) (nat maxAttempts)))
           = nat maxAttempts
       \<and> length (filter (\<lambda>e. e = Sleep intervalMs)
             (rounds srv taskId intervalMs (fetched w) (nat maxAttempts))) = nat maxAttempts
       \<and> (0 < maxAttempts \<longrightarrow>
            (\<exists>pre r. rounds srv taskId intervalMs (fetched w) (nat maxAttempts)
                       = pre @ [Fetch taskId, Update r, Sleep intervalMs]))"
proof -
  from assms have p: "\<forall>n. int n < maxAttempts - 0 \<longrightarrow>
     (\<exists>r. snapshot srv taskId (fetched w + n) = Inr r \<and> \<not> is_terminal (status r))" by simp
  have l: "pollResults_loop srv taskId onUpdate intervalMs maxAttempts 0 w =
     (fst (pollResults srv taskId onUpdate intervalMs maxAttempts w),
      snd (pollResults srv taskId onUpdate intervalMs maxAttempts w))"
    by (simp add: pollResults_def)
  have final: "\<exists>pre r. rounds srv taskId intervalMs (fetched w) (nat maxAttempts)
                       = pre @ [Fetch taskId, Update r, Sleep intervalMs]"
    if "0 < maxAttempts"
  proof -
    from that obtain k where k: "nat maxAttempts = Suc k" by (cases "nat maxAttempts") auto
    show ?thesis unfolding k rounds_Suc round_events_def by blast
  qed
  from loop_all_pending[OF p l] loop_all_pending_caller[OF p l]
    rounds_counts[of taskId srv intervalMs "fetched w" "nat maxAttempts"] final
  show ?thesis by simp
qed

theorem pollResults_timeout_after_full_wait_witness:
  "fst (pollResults stuck_server ''t1'' remember 2000 2 listening)
     = Inl (Error ''Polling timed out'')
   \<and> fetched (snd (pollResults stuck_server ''t1'' remember 2000 2 listening)) = 2
   \<and> trace (snd (pollResults stuck_server ''t1'' remember 2000 2 listening)) =
       [Fetch ''t1'', Update (snapshot_with processing), Sleep 2000,
        Fetch ''t1'', Update (snapshot_with processing), Sleep 2000]
   \<and> caller (snd (pollResults stuck_server ''t1'' remember 2000 2 listening)) =
       [snapshot_with processing, snapshot_with processing]"
proof -
  have r: "rounds stuck_server ''t1'' 2000 0 2 =
       [Fetch ''t1'', Update (snapshot_with processing), Sleep 2000,
        Fetch ''t1'', Update (snapshot_with processing), Sleep 2000]"
    by (simp add: rounds_def round_events_def snapshot_def getResults_def
        stuck_server_def snapshot_with_def Let_def upt_conv_Cons del: upt_Suc)
  have s: "snapshot stuck_server ''t1'' n = Inr (snapshot_with processing)" for n
    by (simp add: snapshot_def getResults_def stuck_server_def Let_def)
  from pollResults_timeout_after_full_wait[OF stuck_pending_listening, of remember 2000] r
  show ?thesis
    by (simp add: listening_def s remember_def upt_conv_Cons del: upt_Suc)
qed

text \<open>
  C2: a fetch that answers \<^verbatim>\<open>not_found\<close> with a successful response is a successful poll;
  the loop hands the snapshot to the observer, waits and polls again. A task that is
  processing, then not found, then completed makes \<^verbatim>\<open>pollResults\<close> return the completed
  snapshot after three polls. \<^verbatim>\<open>getResults\<close> fails exactly when there is no successful
  response, and with its own error "Results fetch failed" exactly on a response that is not
  ok.
\<close>

theorem not_found_poll_continues:
  "(results_endpoint srv taskId (fetched w) = Response True st body \<and> status body = not_found
      \<longrightarrow> getResults srv taskId w =
            (Inr body, emit (Fetch taskId) (w\<lparr>fetched := fetched w + 1\<rparr>))
        \<and> (attempts < maxAttempts \<longrightarrow>
             pollResults_loop srv taskId onUpdate intervalMs maxAttempts attempts w =
             pollResults_loop srv taskId onUpdate intervalMs maxAttempts (attempts + 1)
               (emit (Sleep intervalMs) (notify onUpdate body
                  (emit (Fetch taskId) (w\<lparr>fetched := fetched w + 1\<rparr>))))))
   \<and> (snapshot srv taskId 0 = Inr r0 \<and> status r0 = processing
      \<and> snapshot srv taskId 1 = Inr r1 \<and> status r1 = not_found
      \<and> snapshot srv taskId 2 = Inr r2 \<and> status r2 = completed \<and> 3 \<le> maxAttempts
      \<longrightarrow> pollResults srv taskId onUpdate intervalMs maxAttempts
              \<lparr>fetched = 0, trace = [], caller = u\<rparr> =
            (Inr r2, \<lparr>fetched = 3, trace =
               [Fetch taskId, Update r0, Sleep intervalMs,
                Fetch taskId, Update r1, Sleep intervalMs,
                Fetch taskId, Update r2],
               caller = onUpdate r2 (onUpdate r1 (onUpdate r0 u))\<rparr>))
   \<and> ((\<exists>e. fst (getResults srv taskId w) = Inl e) =
        (\<forall>statusText result.
           results_endpoint srv taskId (fetched w) \<noteq> Response True statusText result))
   \<and> ((\<exists>m. fst (getResults srv taskId w) = Inl (Error m)) =
        (\<exists>statusText result.
           results_endpoint srv taskId (fetched w) = Response False statusText result))"
proof (intro conjI impI)
  assume a: "results_endpoint srv taskId (fetched w) = Response True st body
             \<and> status body = not_found"
  then show g: "getResults srv taskId w =
       (Inr body, emit (Fetch taskId) (w\<lparr>fetched := fetched w + 1\<rparr>))"
    by (simp add: getResults_def Let_def)
  assume "attempts < maxAttempts"
  with a g show "pollResults_loop srv taskId onUpdate intervalMs maxAttempts attempts w =
             pollResults_loop srv taskId onUpdate intervalMs maxAttempts (attempts + 1)
               (emit (Sleep intervalMs) (notify onUpdate body
                  (emit (Fetch taskId) (w\<lparr>fetched := fetched w + 1\<rparr>))))"
    by (subst pollResults_loop.simps) (simp add: Let_def)
next
  assume "snapshot srv taskId 0 = Inr r0 \<and> status r0 = processing
      \<and> snapshot srv taskId 1 = Inr r1 \<and> status r1 = not_found
      \<and> snapshot srv taskId 2 = Inr r2 \<and> status r2 = completed \<and> 3 \<le> maxAttempts"
  then show "pollResults srv taskId onUpdate intervalMs maxAttempts
              \<lparr>fetched = 0, trace = [], caller = u\<rparr> =
            (Inr r2, \<lparr>fetched = 3, trace =
               [Fetch taskId, Update r0, Sleep intervalMs,
                Fetch taskId, Update r1, Sleep intervalMs,
                Fetch taskId, Update r2],
               caller = onUpdate r2 (onUpdate r1 (onUpdate r0 u))\<rparr>)"
    by (simp add: pollResults_def loop_step emit_def notify_def Let_def
        numeral_2_eq_2 numeral_3_eq_3)
next
  show "(\<exists>e. fst (getResults srv taskId w) = Inl e) =
        (\<forall>statusText result.
           results_endpoint srv taskId (fetched w) \<noteq> Response True statusText result)"
    by (cases "results_endpoint srv taskId (fetched w)")
       (auto simp: getResults_def Let_def)
next
  show "(\<exists>m. fst (getResults srv taskId w) = Inl (Error m)) =
        (\<exists>statusText result.
           results_endpoint srv taskId (fetched w) = Response False statusText result)"
    by (cases "results_endpoint srv taskId (fetched w)")
       (auto simp: getResults_def Let_def)
qed

theorem not_found_poll_continues_witness:
  "getResults flip_server ''t1'' \<lparr>fetched = 1, trace = [], caller = ()\<rparr> =
     (Inr (snapshot_with not_found), \<lparr>fetched = 2, trace = [Fetch ''t1''], caller = ()\<rparr>)
   \<and> pollResults_loop flip_server ''t1'' ignore 2000 300 1
        \<lparr>fetched = 1, trace = [], caller = ()\<rparr> =
      pollResults_loop flip_server ''t1'' ignore 2000 300 2
        \<lparr>fetched = 2, trace = [Fetch ''t1'', Update (snapshot_with not_found), Sleep 2000],
         caller = ()\<rparr>
   \<and> pollResults flip_server ''t1'' ignore 2000 300 \<lparr>fetched = 0, trace = [], caller = ()\<rparr> =
       (Inr (snapshot_with completed),
        \<lparr>fetched = 3, trace = [Fetch ''t1'', Update (snapshot_with processing), Sleep 2000,
           Fetch ''t1'', Update (snapshot_with not_found), Sleep 2000,
           Fetch ''t1'', Update (snapshot_with completed)], caller = ()\<rparr>)"
  using not_found_poll_continues[where srv = flip_server and taskId = "''t1''"
      and w = "\<lparr>fetched = 1, trace = [], caller = ()\<rparr>" and st = "''OK''"
      and body = "snapshot_with not_found" and attempts = 1 and maxAttempts = 300
      and onUpdate = ignore and intervalMs = 2000 and u = "()"
      and ?r0.0 = "snapshot_with processing" and ?r1.0 = "snapshot_with not_found"
      and ?r2.0 = "snapshot_with completed"]
  by (simp add: flip_server_def snapshot_with_def snapshot_def getResults_def emit_def
      notify_def ignore_def Let_def numeral_2_eq_2)

section \<open>Properties of the synthesizer\<close>

declare synth_loop.simps [simp del]

lemma synth_loop_from:
  "i \<le> days \<Longrightarrow>
   synth_loop random iso_day halfLife phi i (spread_at random phi i, s) =
     (spread_at random phi days,
      \<lparr>data = data s @ map (\<lambda>j. \<lparr>time = day_at iso_day j, val = spread_at random phi (Suc j)\<rparr>) [i..<days],
       upperBand = upperBand s @ map (\<lambda>j. \<lparr>time = day_at iso_day j,
          val = js_mul (Fin 2) (rollingSigma_of halfLife)\<rparr>) [i..<days],
       lowerBand = lowerBand s @ map (\<lambda>j. \<lparr>time = day_at iso_day j,
          val = js_mul (Fin (- 2)) (rollingSigma_of halfLife)\<rparr>) [i..<days],
       meanLine = meanLine s @ map (\<lambda>j. \<lparr>time = day_at iso_day j, val = Fin 0\<rparr>) [i..<days]\<rparr>)"
proof (induction "days - i" arbitrary: i s)
  case 0
  then have "i = days" by simp
  then show ?case by (subst synth_loop.simps) simp
next
  case (Suc k)
  then have lt: "i < days" and k: "k = days - (i + 1)" and le: "i + 1 \<le> days" by simp_all
  from lt Suc.hyps(1)[OF k le] show ?case
    by (subst synth_loop.simps) (simp add: Let_def day_at_def upt_conv_Cons del: upt_Suc)
qed

lemma update_last:
  "xs \<noteq> [] \<Longrightarrow> xs[length xs - 1 := f (xs ! (length xs - 1))] = butlast xs @ [f (last xs)]"
  by (cases xs rule: rev_cases) simp_all

lemma days_pos: "0 < days"
  by (simp add: days_def)

lemma length_path: "length (path random iso_day phi) = days"
  by (simp add: path_def)

lemma synthesize_eq:
  "synthesize random iso_day selected =
     Inr \<lparr>data = butlast (path random iso_day (phi_of (half_life selected)))
                  @ [anchor iso_day selected],
          upperBand = band iso_day (js_mul (Fin 2) (rollingSigma_of (half_life selected))),
          lowerBand = band iso_day (js_mul (Fin (- 2)) (rollingSigma_of (half_life selected))),
          meanLine = band iso_day (Fin 0)\<rparr>"
proof -
  let ?p = "path random iso_day (phi_of (half_life selected))"
  have ne: "?p \<noteq> []" using length_path[of random iso_day "phi_of (half_life selected)"] days_pos by auto
  have lastp: "last ?p = \<lparr>time = day_at iso_day (days - 1),
        val = spread_at random (phi_of (half_life selected)) (Suc (days - 1))\<rparr>"
    unfolding path_def using days_pos by (subst last_map) simp_all
  have upd: "?p[length ?p - 1 := (?p ! (length ?p - 1))\<lparr>val := v\<rparr>]
             = butlast ?p @ [\<lparr>time = day_at iso_day (days - 1), val = v\<rparr>]" for v
    using update_last[OF ne, of "\<lambda>q. q\<lparr>val := v\<rparr>"] lastp by simp
  have "synth_loop random iso_day (half_life selected) (phi_of (half_life selected)) 0
          (spread_at random (phi_of (half_life selected)) 0,
           \<lparr>data = [], upperBand = [], lowerBand = [], meanLine = []\<rparr>)
        = (spread_at random (phi_of (half_life selected)) days,
           \<lparr>data = ?p,
            upperBand = band iso_day (js_mul (Fin 2) (rollingSigma_of (half_life selected))),
            lowerBand = band iso_day (js_mul (Fin (- 2)) (rollingSigma_of (half_life selected))),
            meanLine = band iso_day (Fin 0)\<rparr>)"
    by (subst synth_loop_from) (simp_all add: path_def band_def)
  then show ?thesis
    using ne upd by (simp add: synthesize_def Let_def anchor_def)
qed

lemma rollingSigma_pos:
  "0 < h \<Longrightarrow> rollingSigma_of (Fin h) = Fin (sqrt (h / (2 * ln 2)))"
  by (simp add: rollingSigma_of_def sigma_def not_less zero_le_divide_iff)

lemma rollingSigma_zero: "rollingSigma_of (Fin 0) = Fin 0"
  by (simp add: rollingSigma_of_def sigma_def signed_inf_def)

lemma rollingSigma_neg: "h < 0 \<Longrightarrow> rollingSigma_of (Fin h) = NaN"
  by (simp add: rollingSigma_of_def sigma_def divide_less_0_iff)

lemma js_mul_NaN [simp]: "js_mul x NaN = NaN"
  by (cases x) simp_all

lemma js_add_NaN [simp]: "js_add x NaN = NaN"
  by (cases x) simp_all

lemma phi_finite: "h \<noteq> 0 \<Longrightarrow> phi_of (Fin h) = Fin (exp (- ln 2 / h))"
  by (simp add: phi_of_def)

lemma next_spread_NaN:
  assumes "1 < p"
  shows "next_spread (Fin p) r x = NaN"
proof -
  from assms have "1 * 1 < p * p" by (intro mult_strict_mono) simp_all
  then have "1 - p * p < 0" by simp
  then show ?thesis by (simp add: next_spread_def js_sub_def)
qed

lemma map_val_band: "map val (band iso_day v) = replicate days v"
  by (simp add: band_def comp_def map_replicate_const)

lemma map_val_path_NaN:
  assumes "1 < p"
  shows "map val (path random iso_day (Fin p)) = replicate days NaN"
  using next_spread_NaN[OF assms]
  by (simp add: path_def comp_def map_replicate_const)

lemma butlast_replicate_snoc: "0 < n \<Longrightarrow> butlast (replicate n x) @ [x] = replicate n x"
proof (cases n)
  case 0
  assume "0 < n"
  with 0 show ?thesis by simp
next
  case (Suc m)
  have "replicate (Suc m) x = replicate m x @ [x]" by (simp add: replicate_append_same)
  with Suc show ?thesis by (simp only: butlast_snoc)
qed

lemma length_band: "length (band iso_day v) = days"
  by (simp add: band_def)

text \<open>
  C3: for every strictly positive half-life the synthesizer returns a series whose final point
  is the z-score times \<open>sqrt (halfLife / (2 ln 2))\<close>, whose upper band is the constant
  \<open>2 * sqrt (halfLife / (2 ln 2))\<close>, whose lower band is the negation of it and whose
  reference line is zero, at each of the 252 points. Numbers are exact reals here, so the
  equalities hold up to the rounding of binary64.
\<close>

theorem synthesize_anchor_and_bands:
  assumes "half_life selected = Fin h" and "0 < h"
  shows "\<exists>s. synthesize random iso_day selected = Inr s
     \<and> length (data s) = days
     \<and> val (last (data s)) = js_mul (z_score selected) (Fin (sqrt (h / (2 * ln 2))))
     \<and> (\<forall>z. z_score selected = Fin z \<longrightarrow> val (last (data s)) = Fin (z * sqrt (h / (2 * ln 2))))
     \<and> map val (upperBand s) = replicate days (Fin (2 * sqrt (h / (2 * ln 2))))
     \<and> map val (lowerBand s) = replicate days (Fin (- (2 * sqrt (h / (2 * ln 2)))))
     \<and> map val (meanLine s) = replicate days (Fin 0)"
proof -
  have len: "length (butlast (path random iso_day (phi_of (half_life selected)))
               @ [anchor iso_day selected]) = days"
    using days_pos by (simp add: length_path)
  show ?thesis
    unfolding synthesize_eq using assms len
    by (simp add: rollingSigma_pos map_val_band anchor_def)
qed

theorem synthesize_anchor_and_bands_witness:
  "\<exists>s. synthesize zero_draws day_label (sample_pair (Fin 30) (Fin 2.5)) = Inr s
     \<and> val (last (data s)) = Fin (2.5 * sqrt (30 / (2 * ln 2)))
     \<and> map val (upperBand s) = replicate 252 (Fin (2 * sqrt (30 / (2 * ln 2))))
     \<and> map val (lowerBand s) = replicate 252 (Fin (- (2 * sqrt (30 / (2 * ln 2)))))
     \<and> map val (meanLine s) = replicate 252 (Fin 0)"
proof -
  have h: "half_life (sample_pair (Fin 30) (Fin 2.5)) = Fin 30" and p: "(0::real) < 30"
    and z: "z_score (sample_pair (Fin 30) (Fin 2.5)) = Fin 2.5"
    by (simp_all add: sample_pair_def)
  from synthesize_anchor_and_bands[OF h p, of zero_draws day_label] z show ?thesis
    by (auto simp: days_def)
qed

text \<open>
  C4 says that a half-life that is zero or negative makes the synthesizer fail with an
  InvalidParameterError. The code has no such check: at half-life \<open>-1\<close> it returns a series
  whose bands and final point are NaN.
\<close>

theorem synthesize_negative_half_life_counterexample:
  "\<not> isl (synthesize zero_draws day_label (sample_pair (Fin (- 1)) (Fin 2.5)))
   \<and> map val (upperBand (projr (synthesize zero_draws day_label
          (sample_pair (Fin (- 1)) (Fin 2.5))))) = replicate 252 NaN
   \<and> map val (lowerBand (projr (synthesize zero_draws day_label
          (sample_pair (Fin (- 1)) (Fin 2.5))))) = replicate 252 NaN
   \<and> val (last (data (projr (synthesize zero_draws day_label
          (sample_pair (Fin (- 1)) (Fin 2.5)))))) = NaN"
  unfolding synthesize_eq
  by (simp add: sample_pair_def rollingSigma_neg map_val_band anchor_def days_def)

text \<open>
  C4, amended: for every half-life that is zero or negative the synthesizer raises no error
  and returns four series of 252 points; for a negative half-life between \<open>-1000000\<close> and
  \<open>-1/1000000\<close> (so at \<open>-1\<close>) every point of the path and of both bands is NaN, and for
  half-life zero both bands are the constant 0 and the final point is the z-score times 0.
  The range is where binary64 agrees with the exact arithmetic of the model: for a negative
  half-life of huge or of subnormal size the code rounds \<^verbatim>\<open>phi\<close> to 1 or the quotient to an
  infinity, and returns zeros where the model has NaN.
\<close>

theorem synthesize_unguarded:
  assumes "half_life selected = Fin h" and "h \<le> 0"
  shows "\<exists>s. synthesize random iso_day selected = Inr s
     \<and> length (data s) = days \<and> length (upperBand s) = days
     \<and> length (lowerBand s) = days \<and> length (meanLine s) = days
     \<and> (- 1000000 \<le> h \<and> h \<le> - (1 / 1000000)
          \<longrightarrow> map val (data s) = replicate days NaN
              \<and> map val (upperBand s) = replicate days NaN
              \<and> map val (lowerBand s) = replicate days NaN)
     \<and> (h = 0 \<longrightarrow> map val (upperBand s) = replicate days (Fin 0)
                \<and> map val (lowerBand s) = replicate days (Fin 0)
                \<and> val (last (data s)) = js_mul (z_score selected) (Fin 0))"
proof -
  let ?p = "path random iso_day (phi_of (half_life selected))"
  have len: "length (butlast ?p @ [anchor iso_day selected]) = days"
    using days_pos by (simp add: length_path)
  have neg: "map val (butlast ?p @ [anchor iso_day selected]) = replicate days NaN" if "h < 0"
  proof -
    from that have "0 < - ln 2 / h" by (simp add: divide_less_0_iff)
    then have "1 < exp (- ln 2 / h)" by simp
    from map_val_path_NaN[OF this] that assms(1)
    have "map val ?p = replicate days NaN" by (simp add: phi_finite)
    then have "map val (butlast ?p) = butlast (replicate days NaN)" by (simp add: map_butlast)
    with that assms(1) butlast_replicate_snoc[OF days_pos, of NaN] show ?thesis
      by (simp add: anchor_def rollingSigma_neg)
  qed
  show ?thesis
    unfolding synthesize_eq using assms len neg
    by (auto simp: rollingSigma_neg rollingSigma_zero map_val_band anchor_def length_band)
qed

theorem synthesize_unguarded_witness:
  "(\<exists>s. synthesize zero_draws day_label (sample_pair (Fin (- 5)) (Fin 2.5)) = Inr s
      \<and> length (data s) = 252 \<and> length (upperBand s) = 252
      \<and> map val (data s) = replicate 252 NaN
      \<and> map val (upperBand s) = replicate 252 NaN
      \<and> map val (lowerBand s) = replicate 252 NaN)
   \<and> (\<exists>s. synthesize zero_draws day_label (sample_pair (Fin 0) (Fin 2.5)) = Inr s
      \<and> length (data s) = 252 \<and> map val (upperBand s) = replicate 252 (Fin 0)
      \<and> val (last (data s)) = Fin 0)"
proof -
  have h1: "half_life (sample_pair (Fin (- 5)) (Fin 2.5)) = Fin (- 5)" and p1: "(- 5 :: real) \<le> 0"
    and r1: "- 1000000 \<le> (- 5 :: real) \<and> (- 5 :: real) \<le> - (1 / 1000000)"
    and h2: "half_life (sample_pair (Fin 0) (Fin 2.5)) = Fin 0" and p2: "(0::real) \<le> 0"
    and z: "z_score (sample_pair (Fin 0) (Fin 2.5)) = Fin 2.5"
    by (simp_all add: sample_pair_def)
  from synthesize_unguarded[OF h1 p1, of zero_draws day_label]
    synthesize_unguarded[OF h2 p2, of zero_draws day_label] r1 z
  show ?thesis by (auto simp: days_def)
qed

lemma first_point:
  "val ((butlast (path random iso_day phi) @ [a]) ! 0) = next_spread phi (random 0) (Fin 0)"
proof -
  have "0 < length (butlast (path random iso_day phi))"
    by (simp add: length_path days_def)
  then have "(butlast (path random iso_day phi) @ [a]) ! 0 = path random iso_day phi ! 0"
    by (simp add: nth_append nth_butlast)
  also have "\<dots> = \<lparr>time = day_at iso_day 0, val = spread_at random phi (Suc 0)\<rparr>"
    unfolding path_def using days_pos by (subst nth_map) simp_all
  finally show ?thesis by simp
qed

lemma next_spread_first:
  assumes "0 < p" and "p < 1"
  shows "next_spread (Fin p) r (Fin 0) = Fin ((r - 1/2) * 2 * sqrt (1 - p * p))"
proof -
  from assms have "p * p < 1 * 1" by (intro mult_strict_mono) simp_all
  then have "\<not> 1 - p * p < 0" by simp
  then show ?thesis by (simp add: next_spread_def js_sub_def sigma_def)
qed

text \<open>
  C6: two runs of the synthesizer on results with the same half-life and z-score, whatever
  their random draws (and their dates), give the same value of the final point and the same
  values of the two bands and the reference line at every index, and the same points when the
  dates agree; the interior is not so constrained: for a positive half-life the first points
  differ as soon as the first draws do.
\<close>

theorem synthesize_anchor_deterministic:
  assumes "half_life selected1 = half_life selected2"
    and "z_score selected1 = z_score selected2"
  shows "\<exists>s1 s2. synthesize random1 iso_day1 selected1 = Inr s1
     \<and> synthesize random2 iso_day2 selected2 = Inr s2
     \<and> val (last (data s1)) = val (last (data s2))
     \<and> map val (upperBand s1) = map val (upperBand s2)
     \<and> map val (lowerBand s1) = map val (lowerBand s2)
     \<and> map val (meanLine s1) = map val (meanLine s2)
     \<and> (iso_day1 = iso_day2 \<longrightarrow> last (data s1) = last (data s2)
          \<and> upperBand s1 = upperBand s2 \<and> lowerBand s1 = lowerBand s2
          \<and> meanLine s1 = meanLine s2)
     \<and> ((\<exists>h. half_life selected1 = Fin h \<and> 0 < h) \<and> random1 0 \<noteq> random2 0
          \<longrightarrow> val (data s1 ! 0) \<noteq> val (data s2 ! 0))"
proof -
  have differ: "next_spread (phi_of (Fin h)) (random1 0) (Fin 0)
                 \<noteq> next_spread (phi_of (Fin h)) (random2 0) (Fin 0)"
    if "0 < h" and "random1 0 \<noteq> random2 0" for h :: real
  proof -
    define p where "p = exp (- ln 2 / h)"
    from that have "- ln 2 / h < 0" by (simp add: divide_less_0_iff)
    then have lt: "p < 1" by (simp add: p_def)
    have pos: "0 < p" by (simp add: p_def)
    from pos lt have "p * p < 1 * 1" by (intro mult_strict_mono) simp_all
    then have "0 < sqrt (1 - p * p)" by simp
    moreover from that have "phi_of (Fin h) = Fin p" by (simp add: phi_finite p_def)
    ultimately show ?thesis
      using that by (simp add: next_spread_first[OF pos lt])
  qed
  show ?thesis
    unfolding synthesize_eq using assms differ
    by (auto simp: map_val_band anchor_def first_point)
qed

theorem synthesize_anchor_deterministic_witness:
  "\<exists>s1 s2. synthesize zero_draws day_label (sample_pair (Fin 30) (Fin 2.5)) = Inr s1
     \<and> synthesize half_draws day_label (sample_pair (Fin 30) (Fin 2.5)) = Inr s2
     \<and> last (data s1) = last (data s2)
     \<and> upperBand s1 = upperBand s2 \<and> lowerBand s1 = lowerBand s2
     \<and> meanLine s1 = meanLine s2
     \<and> val (data s1 ! 0) \<noteq> val (data s2 ! 0)"
proof -
  have h: "\<exists>h. half_life (sample_pair (Fin 30) (Fin 2.5)) = Fin h \<and> 0 < h"
    by (simp add: sample_pair_def)
  from synthesize_anchor_deterministic[OF refl refl,
      of zero_draws day_label "sample_pair (Fin 30) (Fin 2.5)" half_draws day_label] h
  show ?thesis by (auto simp: zero_draws_def half_draws_def)
qed

section \<open>Properties of the form and the page\<close>

lemma posts_append: "posts (xs @ ys) = posts xs @ posts ys"
  by (induction xs rule: posts.induct) auto

lemma loop_posts:
  "pollResults_loop srv taskId onUpdate intervalMs maxAttempts attempts w = (out, w') \<Longrightarrow>
     posts (trace w') = posts (trace w)"
proof (induction srv taskId onUpdate intervalMs maxAttempts attempts w
       rule: pollResults_loop.induct)
  case (1 srv taskId onUpdate intervalMs maxAttempts attempts w)
  show ?case
  proof (cases "attempts < maxAttempts")
    case False
    with "1.prems" show ?thesis by (subst (asm) loop_step) simp
  next
    case True
    obtain o1 w1 where g: "getResults srv taskId w = (o1, w1)"
      by (cases "getResults srv taskId w")
    note gw = getResults_world[OF g]
    then have p1: "posts (trace w1) = posts (trace w)"
      by (simp add: emit_def posts_append)
    show ?thesis
    proof (cases o1)
      case (Inl e)
      with gw have sn: "snapshot srv taskId (fetched w) = Inl e" by simp
      from "1.prems" True have "w' = emit (Fetch taskId) (w\<lparr>fetched := fetched w + 1\<rparr>)"
        by (subst (asm) loop_step) (simp add: Let_def sn)
      with gw p1 show ?thesis by simp
    next
      case (Inr result)
      with gw have sn: "snapshot srv taskId (fetched w) = Inr result" by simp
      show ?thesis
      proof (cases "status result = completed \<or> status result = failed")
        case t: True
        with "1.prems" True gw have "w' = notify onUpdate result w1"
          by (subst (asm) loop_step) (simp add: Let_def sn)
        with p1 show ?thesis by (simp add: notify_def emit_def posts_append)
      next
        case f: False
        with "1.prems" True gw have
          "pollResults_loop srv taskId onUpdate intervalMs maxAttempts (attempts + 1)
             (emit (Sleep intervalMs) (notify onUpdate result w1)) = (out, w')"
          by (subst (asm) loop_step) (simp add: Let_def sn)
        from "1.IH"[OF True g[symmetric] Inr refl f this] p1 show ?thesis
          by (simp add: notify_def emit_def posts_append)
      qed
    qed
  qed
qed

lemma Home_handleScan_posts:
  "posts (trace (Home_handleScan srv call w)) = posts (trace w) @ [request_of call]"
proof -
  let ?w0 = "update_caller (\<lambda>h. h\<lparr>isScanning := True, home_results := [], home_error := [],
                  scanStatus := ''Starting scan...''\<rparr>) w"
  obtain o1 w1 where s: "startScan srv (request_of call) ?w0 = (o1, w1)"
    by (cases "startScan srv (request_of call) ?w0")
  then have p1: "posts (trace w1) = posts (trace w) @ [request_of call]"
    by (auto simp: startScan_def Let_def emit_def update_caller_def posts_append
        split: response.splits if_splits)
  show ?thesis
  proof (cases o1)
    case (Inl e)
    with s p1 show ?thesis
      by (simp add: Home_handleScan_def request_of_def Let_def Home_catch_def update_caller_def)
  next
    case (Inr taskId)
    let ?w2 = "update_caller (\<lambda>h. h\<lparr>scanStatus := ''Scanning pairs ''
                                 @ [CHR 0xE2, CHR 0x80, CHR 0x94]
                                 @ '' this may take a moment...''\<rparr>) w1"
    obtain o3 w3 where p: "pollResults_default srv taskId Home_onUpdate ?w2 = (o3, w3)"
      by (cases "pollResults_default srv taskId Home_onUpdate ?w2")
    then have "posts (trace w3) = posts (trace ?w2)"
      by (auto simp: pollResults_default_def pollResults_def dest: loop_posts)
    with p1 have p3: "posts (trace w3) = posts (trace w) @ [request_of call]"
      by (simp add: update_caller_def)
    from s Inr p p3 show ?thesis
      by (cases o3)
         (simp_all add: Home_handleScan_def request_of_def Let_def Home_catch_def
            update_caller_def)
  qed
qed

lemma is_separator_code:
  "is_separator c = (of_char c \<in> {9, 10, 11, 12, 13, 32, 44 :: nat})"
proof -
  have e: "(c = d) = ((of_char c :: nat) = of_char d)" for d
    by (simp add: of_char_eq_iff)
  show ?thesis
    unfolding is_separator_def is_space_def e by auto
qed

lemma is_space_separator: "is_space c \<Longrightarrow> is_separator c"
  by (simp add: is_separator_def)

lemma upper_char_not_separator: "\<not> is_separator c \<Longrightarrow> \<not> is_separator (upper_char c)"
  by (auto simp: is_separator_code upper_char_def Let_def)

lemma upper_char_idem: "upper_char (upper_char c) = upper_char c"
  by (auto simp: upper_char_def Let_def)

lemma toUpperCase_idem: "toUpperCase (toUpperCase t) = toUpperCase t"
  by (simp add: toUpperCase_def upper_char_idem)

lemma split_from_pieces:
  "t \<in> set (split_from cur s) \<Longrightarrow> \<forall>c\<in>set cur. \<not> is_separator c \<Longrightarrow>
     \<forall>c\<in>set t. \<not> is_separator c"
proof (induction cur s rule: split_from.induct)
  case (1 cur)
  then show ?case by simp
next
  case (2 cur c cs)
  show ?case
  proof (cases "is_separator c")
    case True
    with "2.prems"(1) have
      "t = cur \<or> t \<in> set (split_from [] (dropWhile is_separator cs))" by simp
    then show ?thesis
    proof
      assume "t = cur"
      with "2.prems"(2) show ?thesis by simp
    next
      assume "t \<in> set (split_from [] (dropWhile is_separator cs))"
      from "2.IH"(1)[OF True this] show ?thesis by simp
    qed
  next
    case False
    with "2.prems"(1) have m: "t \<in> set (split_from (cur @ [c]) cs)" by simp
    from False "2.prems"(2) have "\<forall>d\<in>set (cur @ [c]). \<not> is_separator d" by simp
    from "2.IH"(2)[OF False m this] show ?thesis .
  qed
qed

lemma dropWhile_none: "\<forall>c\<in>set t. \<not> P c \<Longrightarrow> dropWhile P t = t"
  by (cases t) simp_all

lemma trim_piece:
  assumes "\<forall>c\<in>set t. \<not> is_separator c"
  shows "trim t = t"
proof -
  from assms have "\<forall>c\<in>set t. \<not> is_space c" using is_space_separator by blast
  then show ?thesis by (simp add: trim_def dropWhile_none)
qed

lemma normalized_ticker:
  assumes "t \<in> set (normalized_tickers input)"
  shows "t \<noteq> [] \<and> toUpperCase t = t \<and> (\<forall>c\<in>set t. \<not> is_separator c)"
proof -
  from assms obtain p where p: "p \<in> set (split_separators input)"
    and t: "t = toUpperCase (trim p)" and ne: "t \<noteq> []"
    by (auto simp: normalized_tickers_def)
  from p have "p \<in> set (split_from [] input)" by (simp add: split_separators_def)
  from split_from_pieces[OF this] have sep: "\<forall>c\<in>set p. \<not> is_separator c" by simp
  with t have t': "t = toUpperCase p" by (simp add: trim_piece)
  have "\<forall>c\<in>set (toUpperCase p). \<not> is_separator c"
  proof
    fix c assume "c \<in> set (toUpperCase p)"
    then obtain d where "d \<in> set p" and "c = upper_char d"
      by (auto simp: toUpperCase_def)
    with sep show "\<not> is_separator c" by (simp add: upper_char_not_separator)
  qed
  with t' ne show ?thesis by (simp add: toUpperCase_idem)
qed

lemma trim_empty_all_space:
  assumes "trim s = []"
  shows "\<forall>c\<in>set s. is_space c"
proof
  fix c assume c: "c \<in> set s"
  from assms have d: "\<forall>x\<in>set (dropWhile is_space s). is_space x"
    by (simp add: trim_def)
  have "set s = set (takeWhile is_space s) \<union> set (dropWhile is_space s)"
    by (subst set_append[symmetric]) simp
  with c have "c \<in> set (takeWhile is_space s) \<or> c \<in> set (dropWhile is_space s)" by simp
  then show "is_space c"
  proof
    assume "c \<in> set (takeWhile is_space s)"
    then show ?thesis by (rule set_takeWhileD[THEN conjunct2])
  next
    assume "c \<in> set (dropWhile is_space s)"
    with d show ?thesis by blast
  qed
qed

lemma split_all_separators:
  assumes "\<forall>c\<in>set s. is_separator c"
  shows "set (split_from [] s) \<subseteq> {[]}"
proof (cases s)
  case Nil
  then show ?thesis by simp
next
  case (Cons c cs)
  with assms have c: "is_separator c" and "\<forall>x\<in>set cs. is_separator x" by simp_all
  then have "dropWhile is_separator cs = []" by simp
  then have "split_from [] (dropWhile is_separator cs) = [[]]" by (simp only: split_from.simps)
  with Cons c show ?thesis by (simp only: split_from.simps if_True) simp
qed

lemma normalized_of_blank:
  assumes "trim s = []"
  shows "normalized_tickers s = []"
proof -
  from assms have "\<forall>c\<in>set s. is_separator c"
    using trim_empty_all_space is_space_separator by blast
  from split_all_separators[OF this] have "\<forall>p\<in>set (split_separators s). p = []"
    by (auto simp: split_separators_def)
  moreover have "toUpperCase (trim []) = []" by (simp add: trim_def toUpperCase_def)
  ultimately have "\<forall>p\<in>set (split_separators s). toUpperCase (trim p) = []"
    by auto
  then show ?thesis
    by (simp add: normalized_tickers_def filter_empty_conv)
qed

lemma click_posts:
  "posted_by_click srv form w =
     (if \<not> isScanning (caller w) \<and> 2 \<le> length (normalized_tickers (tickerInput form))
      then [\<lparr>tickers = normalized_tickers (tickerInput form), period = form_period form,
              interval = None, start_date = None, end_date = None\<rparr>]
      else [])"
proof (cases "2 \<le> length (normalized_tickers (tickerInput form))")
  case False
  then show ?thesis
    by (simp add: posted_by_click_def run_scan_click_def ScanForm_handleScan_def Let_def)
next
  case True
  then have "normalized_tickers (tickerInput form) \<noteq> []" by auto
  then have "trim (tickerInput form) \<noteq> []" using normalized_of_blank by blast
  with True show ?thesis
    by (simp add: posted_by_click_def run_scan_click_def ScanForm_handleScan_def Let_def
        Home_handleScan_posts request_of_def)
qed

lemma click_ignored:
  "length (normalized_tickers (tickerInput form)) < 2 \<Longrightarrow> run_scan_click srv form w = w"
  by (simp add: run_scan_click_def ScanForm_handleScan_def Let_def)

lemma normalized_two: "normalized_tickers ''AAPL, msft'' = [''AAPL'', ''MSFT'']"
  by (simp add: normalized_tickers_def split_separators_def is_separator_def is_space_def
      trim_def toUpperCase_def upper_char_def Let_def char_of_eq_iff)

lemma normalized_duplicate: "normalized_tickers '' ,AAPL,,  aapl  '' = [''AAPL'', ''AAPL'']"
  by (simp add: normalized_tickers_def split_separators_def is_separator_def is_space_def
      trim_def toUpperCase_def upper_char_def Let_def char_of_eq_iff)

lemma normalized_single: "normalized_tickers ''AAPL'' = [''AAPL'']"
  by (simp add: normalized_tickers_def split_separators_def is_separator_def is_space_def
      trim_def toUpperCase_def upper_char_def Let_def char_of_eq_iff)

text \<open>
  C5 says that a malformed request (fewer than two tickers after normalization, or the period
  \<^verbatim>\<open>custom\<close> with an incomplete pair of dates) is answered with a ValidationError before any
  network call. The code has no such error: with the period \<^verbatim>\<open>custom\<close> and both dates empty
  the scan is posted, and with a single ticker the click changes nothing, the error shown by
  the page included.
\<close>

theorem malformed_request_counterexample:
  "posted_by_click flip_server (custom_form ''AAPL, msft'' [] []) fresh =
     [\<lparr>tickers = [''AAPL'', ''MSFT''], period = ''custom'', interval = None,
       start_date = None, end_date = None\<rparr>]
   \<and> run_scan_click flip_server (custom_form ''AAPL'' [] []) fresh = fresh
   \<and> home_error (caller (run_scan_click flip_server (custom_form ''AAPL'' [] []) fresh)) = []"
proof -
  have "run_scan_click flip_server (custom_form ''AAPL'' [] []) fresh = fresh"
    by (rule click_ignored) (simp add: custom_form_def normalized_single)
  then show ?thesis
    by (simp add: click_posts custom_form_def normalized_two fresh_def)
qed

text \<open>
  C5, amended: with fewer than two tickers after normalization a click on "Run Scan" does
  nothing at all (no network call, no error shown, no change of state); with at least two
  tickers and the period \<^verbatim>\<open>custom\<close>, whatever the two dates are, the scan is posted with
  those tickers and that period.
\<close>

theorem malformed_request_handling:
  "(length (normalized_tickers (tickerInput form)) < 2 \<longrightarrow> run_scan_click srv form w = w)
   \<and> (2 \<le> length (normalized_tickers (tickerInput form)) \<and> \<not> isScanning (caller w)
        \<and> form_period form = ''custom''
      \<longrightarrow> (\<exists>r. posted_by_click srv form w = [r]
               \<and> tickers r = normalized_tickers (tickerInput form)
               \<and> period r = ''custom''))"
  by (simp add: click_ignored click_posts)

theorem malformed_request_handling_witness:
  "run_scan_click flip_server (custom_form ''AAPL'' ''2020-01-01'' ''2021-01-01'') fresh = fresh
   \<and> (\<exists>r. posted_by_click flip_server (custom_form ''AAPL, msft'' ''2020-01-01'' []) fresh = [r]
          \<and> tickers r = [''AAPL'', ''MSFT''] \<and> period r = ''custom'')"
  using malformed_request_handling[of "custom_form ''AAPL'' ''2020-01-01'' ''2021-01-01''"
      flip_server fresh]
    malformed_request_handling[of "custom_form ''AAPL, msft'' ''2020-01-01'' []"
      flip_server fresh]
  by (simp add: custom_form_def normalized_two normalized_single fresh_def)

text \<open>
  C8 says that a scan with the period \<^verbatim>\<open>custom\<close> and both dates given is sent with the dates.
  The form passes both dates to \<^verbatim>\<open>onScan\<close>, but the page's handler takes two parameters only:
  no request it posts has a start or an end date.
\<close>

theorem custom_dates_dropped:
  "map start_date (posted_by_click srv form w)
     = replicate (length (posted_by_click srv form w)) None
   \<and> map end_date (posted_by_click srv form w)
     = replicate (length (posted_by_click srv form w)) None
   \<and> ScanForm_handleScan (custom_form ''AAPL, msft'' ''2020-01-01'' ''2021-01-01'') =
       Some \<lparr>call_tickers = [''AAPL'', ''MSFT''], call_period = ''custom'',
              call_startDate = Some ''2020-01-01'', call_endDate = Some ''2021-01-01''\<rparr>
   \<and> posted_by_click flip_server (custom_form ''AAPL, msft'' ''2020-01-01'' ''2021-01-01'') fresh =
       [\<lparr>tickers = [''AAPL'', ''MSFT''], period = ''custom'', interval = None,
         start_date = None, end_date = None\<rparr>]"
  by (simp add: click_posts ScanForm_handleScan_def custom_form_def normalized_two fresh_def Let_def)

text \<open>
  C9 says that a submitted request carries unique tickers. The form never removes a duplicate:
  the input below is posted as the list AAPL, AAPL.
\<close>

theorem duplicate_tickers_counterexample:
  "posted_by_click flip_server
      \<lparr>tickerInput = '' ,AAPL,,  aapl  '', form_period = ''1y'', startDate = [], endDate = []\<rparr>
      fresh =
     [\<lparr>tickers = [''AAPL'', ''AAPL''], period = ''1y'', interval = None,
       start_date = None, end_date = None\<rparr>]
   \<and> \<not> distinct [''AAPL'', ''AAPL'']"
  by (simp add: click_posts normalized_duplicate fresh_def)

text \<open>
  C9, amended: every request a click posts carries at least two tickers, each of them not
  empty, free of commas and white space, and in upper case; the list may hold duplicates.
\<close>

theorem submitted_tickers_normalized:
  assumes "r \<in> set (posted_by_click srv form w)"
  shows "2 \<le> length (tickers r)
     \<and> (\<forall>t\<in>set (tickers r). t \<noteq> [] \<and> toUpperCase t = t \<and> (\<forall>c\<in>set t. \<not> is_separator c))"
proof -
  from assms have t: "tickers r = normalized_tickers (tickerInput form)"
    and l: "2 \<le> length (normalized_tickers (tickerInput form))"
    by (auto simp: click_posts split: if_splits)
  from t l normalized_ticker show ?thesis by auto
qed

theorem submitted_tickers_normalized_witness:
  "\<lparr>tickers = [''AAPL'', ''MSFT''], period = ''custom'', interval = None,
       start_date = None, end_date = None\<rparr>
     \<in> set (posted_by_click flip_server (custom_form ''AAPL, msft'' [] []) fresh)
   \<and> 2 \<le> length [''AAPL'', ''MSFT'']
   \<and> toUpperCase ''AAPL'' = ''AAPL'' \<and> toUpperCase ''MSFT'' = ''MSFT''
   \<and> \<not> is_separator (CHR ''A'')"
proof -
  let ?r = "\<lparr>tickers = [''AAPL'', ''MSFT''], period = ''custom'', interval = None,
       start_date = None, end_date = None\<rparr>"
  have "?r \<in> set (posted_by_click flip_server (custom_form ''AAPL, msft'' [] []) fresh)"
    by (simp add: click_posts custom_form_def normalized_two fresh_def)
  from this submitted_tickers_normalized[OF this] show ?thesis by simp
qed

section \<open>The variance of the synthesized path\<close>

lemma spread_at_cong:
  "(\<forall>i<n. r1 i = r2 i) \<Longrightarrow> spread_at r1 phi n = spread_at r2 phi n"
  by (induction n) simp_all

lemma spread_of_Nil: "spread_of phi [] = Fin 0"
  by (simp add: spread_of_def)

lemma spread_of_snoc: "spread_of phi (us @ [u]) = next_spread phi u (spread_of phi us)"
proof -
  have "spread_at (\<lambda>i. (us @ [u]) ! i) phi (length us) = spread_at (\<lambda>i. us ! i) phi (length us)"
    by (rule spread_at_cong) (simp add: nth_append)
  then show ?thesis by (simp add: spread_of_def)
qed

lemma next_spread_real:
  assumes "p * p \<le> 1"
  shows "next_spread (Fin p) u (Fin x) = Fin (p * x + (u - 1/2) * 2 * sqrt (1 - p * p))"
  using assms by (simp add: next_spread_def js_sub_def sigma_def not_less)

lemma spread_of_finite:
  assumes "p * p \<le> 1"
  shows "\<exists>x. spread_of (Fin p) us = Fin x"
proof (induction us rule: rev_induct)
  case Nil
  show ?case by (simp add: spread_of_Nil)
next
  case (snoc u us)
  then obtain x where "spread_of (Fin p) us = Fin x" by blast
  then show ?case by (simp add: spread_of_snoc next_spread_real[OF assms])
qed

lemma walk_snoc:
  assumes "p * p \<le> 1"
  shows "fin_val (spread_of (Fin p) (us @ [u]))
         = p * fin_val (spread_of (Fin p) us) + (u - 1/2) * 2 * sqrt (1 - p * p)"
proof -
  from spread_of_finite[OF assms] obtain x where x: "spread_of (Fin p) us = Fin x" by blast
  then show ?thesis by (simp add: spread_of_snoc next_spread_real[OF assms] fin_val_def)
qed

lemma walk_Nil: "fin_val (spread_of phi []) = 0"
  by (simp add: spread_of_Nil fin_val_def)

lemma length_grid: "length (grid N) = N"
  by (simp add: grid_def)

lemma length_draw_seqs: "length (draw_seqs N n) = N ^ n"
  by (induction n) (simp_all add: length_concat comp_def length_grid sum_list_triv)

lemma sum_list_map_concat:
  "sum_list (map f (concat xss)) = sum_list (map (\<lambda>xs. sum_list (map f xs)) xss)"
  by (induction xss) simp_all

lemma sum_list_draws_Suc:
  "sum_list (map f (draw_seqs N (Suc n)))
     = sum_list (map (\<lambda>us. sum_list (map (\<lambda>u. f (us @ [u])) (grid N))) (draw_seqs N n))"
  by (simp add: sum_list_map_concat comp_def)

lemma noise_sum:
  assumes "d \<noteq> 0"
  shows "(\<Sum>k = 0..<n. (real k / d - 1/2) * 2) = real n * (real n - 1) / d - real n"
proof -
  define f where "f = (\<lambda>k. (real k / d - 1/2) * 2)"
  have "sum f {0..<n} = real n * (real n - 1) / d - real n"
  proof (induction n)
    case 0
    show ?case by simp
  next
    case (Suc n)
    have "sum f {0..<Suc n} = sum f {0..<n} + f n" by simp
    also have "\<dots> = (real n * (real n - 1) / d - real n) + f n" by (simp only: Suc.IH)
    also have "\<dots> = real (Suc n) * (real (Suc n) - 1) / d - real (Suc n)"
      using assms by (simp add: f_def field_simps)
    finally show ?case .
  qed
  then show ?thesis by (simp only: f_def)
qed

lemma noise_square_sum:
  assumes "d \<noteq> 0"
  shows "(\<Sum>k = 0..<n. ((real k / d - 1/2) * 2)\<^sup>2)
     = 2 * real n * (real n - 1) * (2 * real n - 1) / (3 * d\<^sup>2)
       - 2 * real n * (real n - 1) / d + real n"
proof -
  define f where "f = (\<lambda>k. ((real k / d - 1/2) * 2)\<^sup>2)"
  define g where "g = (\<lambda>x. 2 * x * (x - 1) * (2 * x - 1) / (3 * d\<^sup>2) - 2 * x * (x - 1) / d + x)"
  have "sum f {0..<n} = g (real n)"
  proof (induction n)
    case 0
    show ?case by (simp add: g_def)
  next
    case (Suc n)
    have "sum f {0..<Suc n} = sum f {0..<n} + f n" by simp
    also have "\<dots> = g (real n) + f n" by (simp only: Suc.IH)
    also have "\<dots> = g (real (Suc n))"
      using assms by (simp add: f_def g_def field_simps power2_eq_square)
    finally show ?case .
  qed
  then show ?thesis by (simp only: f_def g_def)
qed

lemma grid_noise_sum:
  assumes "0 < N"
  shows "sum_list (map (\<lambda>u. (u - 1/2) * 2) (grid N)) = - 1"
proof -
  have "sum_list (map (\<lambda>u. (u - 1/2) * 2) (grid N))
        = (\<Sum>k = 0..<N. (real k / real N - 1/2) * 2)"
    by (simp only: grid_def map_map comp_def interv_sum_list_conv_sum_set_nat set_upt)
  also have "\<dots> = real N * (real N - 1) / real N - real N"
    using assms by (intro noise_sum) simp
  also have "\<dots> = - 1" using assms by simp
  finally show ?thesis .
qed

lemma grid_noise_square_sum:
  assumes "0 < N"
  shows "sum_list (map (\<lambda>u. ((u - 1/2) * 2)\<^sup>2) (grid N)) = ((real N)\<^sup>2 + 2) / (3 * real N)"
proof -
  have "sum_list (map (\<lambda>u. ((u - 1/2) * 2)\<^sup>2) (grid N))
        = (\<Sum>k = 0..<N. ((real k / real N - 1/2) * 2)\<^sup>2)"
    by (simp only: grid_def map_map comp_def interv_sum_list_conv_sum_set_nat set_upt)
  also have "\<dots> = 2 * real N * (real N - 1) * (2 * real N - 1) / (3 * (real N)\<^sup>2)
       - 2 * real N * (real N - 1) / real N + real N"
    using assms by (intro noise_square_sum) simp
  also have "\<dots> = ((real N)\<^sup>2 + 2) / (3 * real N)"
    using assms by (simp add: field_simps power2_eq_square)
  finally show ?thesis .
qed

lemma step_sum:
  assumes "0 < N"
  shows "sum_list (map (\<lambda>u. a + (u - 1/2) * 2 * c) (grid N)) = real N * a - c"
proof -
  have s1: "sum_list (map (\<lambda>u. a + (u - 1/2) * 2 * c) (grid N))
        = sum_list (map (\<lambda>u. a) (grid N)) + sum_list (map (\<lambda>u. (u - 1/2) * 2 * c) (grid N))"
    by (rule sum_list_addf)
  have s2: "sum_list (map (\<lambda>u. a) (grid N)) = real N * a"
    by (simp add: sum_list_triv length_grid)
  have s3: "sum_list (map (\<lambda>u. (u - 1/2) * 2 * c) (grid N))
             = sum_list (map (\<lambda>u. (u - 1/2) * 2) (grid N)) * c"
    by (rule sum_list_mult_const)
  show ?thesis unfolding s1 s2 s3 grid_noise_sum[OF assms] by simp
qed

lemma step_square_sum:
  assumes "0 < N"
  shows "sum_list (map (\<lambda>u. (a + (u - 1/2) * 2 * c)\<^sup>2) (grid N))
         = real N * a\<^sup>2 - 2 * a * c + c\<^sup>2 * (((real N)\<^sup>2 + 2) / (3 * real N))"
proof -
  have e: "(\<lambda>u. (a + (u - 1/2) * 2 * c)\<^sup>2)
           = (\<lambda>u. (a\<^sup>2 + (u - 1/2) * 2 * (2 * a * c)) + ((u - 1/2) * 2)\<^sup>2 * c\<^sup>2)"
    by (rule ext) (simp add: power2_eq_square algebra_simps)
  have s1: "sum_list (map (\<lambda>u. (a\<^sup>2 + (u - 1/2) * 2 * (2 * a * c)) + ((u - 1/2) * 2)\<^sup>2 * c\<^sup>2) (grid N))
        = sum_list (map (\<lambda>u. a\<^sup>2 + (u - 1/2) * 2 * (2 * a * c)) (grid N))
          + sum_list (map (\<lambda>u. ((u - 1/2) * 2)\<^sup>2 * c\<^sup>2) (grid N))"
    by (rule sum_list_addf)
  have s2: "sum_list (map (\<lambda>u. a\<^sup>2 + (u - 1/2) * 2 * (2 * a * c)) (grid N))
             = real N * a\<^sup>2 - 2 * a * c"
    by (rule step_sum[OF assms])
  have s3: "sum_list (map (\<lambda>u. ((u - 1/2) * 2)\<^sup>2 * c\<^sup>2) (grid N))
             = sum_list (map (\<lambda>u. ((u - 1/2) * 2)\<^sup>2) (grid N)) * c\<^sup>2"
    by (rule sum_list_mult_const)
  show ?thesis unfolding e s1 s2 s3 grid_noise_square_sum[OF assms] by simp
qed

lemma first_moment_Suc:
  assumes "p * p \<le> 1" and "0 < N"
  shows "sum_list (map (\<lambda>us. fin_val (spread_of (Fin p) us)) (draw_seqs N (Suc n)))
         = real N * p * sum_list (map (\<lambda>us. fin_val (spread_of (Fin p) us)) (draw_seqs N n))
           - sqrt (1 - p * p) * real (N ^ n)"
proof -
  define W where "W = (\<lambda>us. fin_val (spread_of (Fin p) us))"
  define c where "c = sqrt (1 - p * p)"
  have inner: "sum_list (map (\<lambda>u. W (us @ [u])) (grid N)) = (real N * p) * W us - c" for us
    unfolding W_def c_def walk_snoc[OF assms(1)] step_sum[OF assms(2)] by simp
  have "sum_list (map W (draw_seqs N (Suc n)))
        = sum_list (map (\<lambda>us. (real N * p) * W us - c) (draw_seqs N n))"
    unfolding sum_list_draws_Suc inner ..
  also have "\<dots> = sum_list (map (\<lambda>us. (real N * p) * W us) (draw_seqs N n))
                   - sum_list (map (\<lambda>us. c) (draw_seqs N n))"
    by (rule sum_list_subtractf)
  also have "sum_list (map (\<lambda>us. (real N * p) * W us) (draw_seqs N n))
             = (real N * p) * sum_list (map W (draw_seqs N n))"
    by (rule sum_list_const_mult)
  also have "sum_list (map (\<lambda>us. c) (draw_seqs N n)) = real (N ^ n) * c"
    by (simp add: sum_list_triv length_draw_seqs)
  finally show ?thesis unfolding W_def c_def by (simp add: mult.commute)
qed

lemma second_moment_Suc:
  assumes "p * p \<le> 1" and "0 < N"
  shows "sum_list (map (\<lambda>us. (fin_val (spread_of (Fin p) us))\<^sup>2) (draw_seqs N (Suc n)))
         = real N * p\<^sup>2
             * sum_list (map (\<lambda>us. (fin_val (spread_of (Fin p) us))\<^sup>2) (draw_seqs N n))
           - 2 * p * sqrt (1 - p * p)
             * sum_list (map (\<lambda>us. fin_val (spread_of (Fin p) us)) (draw_seqs N n))
           + (1 - p * p) * (((real N)\<^sup>2 + 2) / (3 * real N)) * real (N ^ n)"
proof -
  define W where "W = (\<lambda>us. fin_val (spread_of (Fin p) us))"
  define c where "c = sqrt (1 - p * p)"
  define g where "g = ((real N)\<^sup>2 + 2) / (3 * real N)"
  from assms(1) have c2: "c\<^sup>2 = 1 - p * p" by (simp add: c_def)
  have inner: "sum_list (map (\<lambda>u. (W (us @ [u]))\<^sup>2) (grid N))
               = ((real N * p\<^sup>2) * (W us)\<^sup>2 - (2 * p * c) * W us) + c\<^sup>2 * g" for us
    unfolding W_def c_def g_def walk_snoc[OF assms(1)] step_square_sum[OF assms(2)]
    by (simp add: power2_eq_square algebra_simps)
  have "sum_list (map (\<lambda>us. (W us)\<^sup>2) (draw_seqs N (Suc n)))
        = sum_list (map (\<lambda>us. ((real N * p\<^sup>2) * (W us)\<^sup>2 - (2 * p * c) * W us) + c\<^sup>2 * g)
            (draw_seqs N n))"
    unfolding sum_list_draws_Suc inner ..
  also have "\<dots> = sum_list (map (\<lambda>us. (real N * p\<^sup>2) * (W us)\<^sup>2 - (2 * p * c) * W us)
                        (draw_seqs N n))
                   + sum_list (map (\<lambda>us. c\<^sup>2 * g) (draw_seqs N n))"
    by (rule sum_list_addf)
  also have "sum_list (map (\<lambda>us. (real N * p\<^sup>2) * (W us)\<^sup>2 - (2 * p * c) * W us) (draw_seqs N n))
             = sum_list (map (\<lambda>us. (real N * p\<^sup>2) * (W us)\<^sup>2) (draw_seqs N n))
               - sum_list (map (\<lambda>us. (2 * p * c) * W us) (draw_seqs N n))"
    by (rule sum_list_subtractf)
  also have "sum_list (map (\<lambda>us. (real N * p\<^sup>2) * (W us)\<^sup>2) (draw_seqs N n))
             = (real N * p\<^sup>2) * sum_list (map (\<lambda>us. (W us)\<^sup>2) (draw_seqs N n))"
    by (rule sum_list_const_mult)
  also have "sum_list (map (\<lambda>us. (2 * p * c) * W us) (draw_seqs N n))
             = (2 * p * c) * sum_list (map W (draw_seqs N n))"
    by (rule sum_list_const_mult)
  also have "sum_list (map (\<lambda>us. c\<^sup>2 * g) (draw_seqs N n)) = real (N ^ n) * (c\<^sup>2 * g)"
    by (simp add: sum_list_triv length_draw_seqs)
  finally show ?thesis unfolding c2 unfolding W_def c_def g_def by (simp add: mult.commute)
qed

lemma variance_step:
  fixes p c M Q g Nr s :: real
  assumes c2: "c * c = 1 - p * p" and Nr: "Nr \<noteq> 0"
    and g: "g = (Nr * Nr + 2) / (3 * Nr)"
    and s: "s = (1 - 1 / (Nr * Nr)) / 3"
  shows "(p * p * Q - 2 * p * c * M / Nr + (1 - p * p) * g / Nr) - (p * M - c / Nr) * (p * M - c / Nr)
         = p * p * (Q - M * M) + (1 - p * p) * s"
proof -
  have sq: "(p * M - c / Nr) * (p * M - c / Nr)
            = p * p * (M * M) - 2 * p * c * M / Nr + (c * c) / (Nr * Nr)"
    by (simp add: algebra_simps)
  have gs: "g / Nr - 1 / (Nr * Nr) = s"
    using Nr unfolding g s by (simp add: field_simps)
  have "(1 - p * p) * g / Nr - (1 - p * p) / (Nr * Nr) = (1 - p * p) * (g / Nr - 1 / (Nr * Nr))"
    by (simp add: right_diff_distrib)
  with gs have t: "(1 - p * p) * g / Nr - (1 - p * p) / (Nr * Nr) = (1 - p * p) * s" by simp
  have "(p * p * Q - 2 * p * c * M / Nr + (1 - p * p) * g / Nr) - (p * M - c / Nr) * (p * M - c / Nr)
        = p * p * (Q - M * M) + ((1 - p * p) * g / Nr - (1 - p * p) / (Nr * Nr))"
    unfolding sq c2 by (simp add: algebra_simps)
  with t show ?thesis by simp
qed

lemma variance_closed:
  assumes phi: "phi_of halfLife = Fin p" and p: "p * p \<le> 1" and N: "0 < N"
  shows "spread_variance N halfLife n = (1 - 1 / (real N * real N)) / 3 * (1 - (p * p) ^ n)"
proof -
  define W where "W = (\<lambda>us. fin_val (spread_of (Fin p) us))"
  define c where "c = sqrt (1 - p * p)"
  define g where "g = (real N * real N + 2) / (3 * real N)"
  define s where "s = (1 - 1 / (real N * real N)) / 3"
  define M where "M = (\<lambda>n. sum_list (map W (draw_seqs N n)) / real (N ^ n))"
  define Q where "Q = (\<lambda>n. sum_list (map (\<lambda>us. W us * W us) (draw_seqs N n)) / real (N ^ n))"
  from p have c2: "c * c = 1 - p * p" by (simp add: c_def)
  from N have Nr: "real N \<noteq> 0" and Nn: "real (N ^ n) \<noteq> 0" for n by simp_all
  have M_Suc: "M (Suc n) = p * M n - c / real N" for n
  proof -
    have "sum_list (map W (draw_seqs N (Suc n)))
          = real N * p * sum_list (map W (draw_seqs N n)) - c * real (N ^ n)"
      unfolding W_def c_def by (rule first_moment_Suc[OF p N])
    then have "M (Suc n) = (real N * p * sum_list (map W (draw_seqs N n)) - c * real (N ^ n))
                            / (real N * real (N ^ n))"
      by (simp add: M_def mult.commute)
    also have "\<dots> = p * (sum_list (map W (draw_seqs N n)) / real (N ^ n)) - c / real N"
      using Nr Nn[of n] by (simp add: field_simps)
    finally show ?thesis by (simp add: M_def)
  qed
  have Q_Suc: "Q (Suc n) = p * p * Q n - 2 * p * c * M n / real N + (1 - p * p) * g / real N"
    for n
  proof -
    have "sum_list (map (\<lambda>us. W us * W us) (draw_seqs N (Suc n)))
          = real N * (p * p) * sum_list (map (\<lambda>us. W us * W us) (draw_seqs N n))
            - 2 * p * c * sum_list (map W (draw_seqs N n))
            + (1 - p * p) * g * real (N ^ n)"
      using second_moment_Suc[OF p N, of n]
      unfolding W_def c_def g_def power2_eq_square .
    then have "Q (Suc n)
          = (real N * (p * p) * sum_list (map (\<lambda>us. W us * W us) (draw_seqs N n))
            - 2 * p * c * sum_list (map W (draw_seqs N n))
            + (1 - p * p) * g * real (N ^ n)) / (real N * real (N ^ n))"
      by (simp add: Q_def mult.commute)
    also have "\<dots> = p * p * (sum_list (map (\<lambda>us. W us * W us) (draw_seqs N n)) / real (N ^ n))
            - 2 * p * c * (sum_list (map W (draw_seqs N n)) / real (N ^ n)) / real N
            + (1 - p * p) * g / real N"
      using Nr Nn[of n] by (simp add: field_simps)
    finally show ?thesis by (simp add: Q_def M_def)
  qed
  have V: "Q n - M n * M n = s * (1 - (p * p) ^ n)"
  proof (induction n)
    case 0
    show ?case by (simp add: Q_def M_def W_def walk_Nil)
  next
    case (Suc n)
    have "Q (Suc n) - M (Suc n) * M (Suc n) = p * p * (Q n - M n * M n) + (1 - p * p) * s"
      unfolding M_Suc Q_Suc by (rule variance_step[OF c2 Nr g_def s_def])
    also have "\<dots> = p * p * (s * (1 - (p * p) ^ n)) + (1 - p * p) * s"
      by (simp only: Suc.IH)
    also have "\<dots> = s * (1 - (p * p) ^ Suc n)"
      by (simp add: algebra_simps)
    finally show ?case .
  qed
  have "spread_variance N halfLife n = Q n - M n * M n"
    by (simp add: spread_variance_def spread_mean_def phi Q_def M_def W_def power2_eq_square)
  with V show ?thesis by (simp add: s_def)
qed

lemma phi_positive_half_life:
  assumes "0 < h"
  shows "phi_of (Fin h) = Fin (exp (- ln 2 / h))" and "0 < exp (- ln 2 / h)"
    and "exp (- ln 2 / h) < 1"
proof -
  from assms show "phi_of (Fin h) = Fin (exp (- ln 2 / h))" by (simp add: phi_finite)
  show "0 < exp (- ln 2 / h)" by simp
  from assms have "- ln 2 / h < 0" by (simp add: divide_less_0_iff)
  then show "exp (- ln 2 / h) < 1" by simp
qed

lemma variance_positive_half_life:
  assumes "0 < h" and "0 < N"
  shows "spread_variance N (Fin h) n
         = (1 - 1 / (real N * real N)) / 3 * (1 - (exp (- ln 2 / h) * exp (- ln 2 / h)) ^ n)"
proof -
  note ph = phi_positive_half_life[OF assms(1)]
  from ph(2,3) have "exp (- ln 2 / h) * exp (- ln 2 / h) \<le> 1 * 1"
    by (intro mult_mono) simp_all
  then have "exp (- ln 2 / h) * exp (- ln 2 / h) \<le> 1" by simp
  from variance_closed[OF ph(1) this assms(2)] show ?thesis .
qed

lemma variance_limit:
  assumes "0 < h" and "0 < N"
  shows "(\<lambda>n. spread_variance N (Fin h) n) \<longlonglongrightarrow> (1 - 1 / (real N * real N)) / 3"
proof -
  define q where "q = exp (- ln 2 / h) * exp (- ln 2 / h)"
  note ph = phi_positive_half_life[OF assms(1)]
  from ph(2,3) have "exp (- ln 2 / h) * exp (- ln 2 / h) < 1 * 1"
    by (intro mult_strict_mono) simp_all
  then have q1: "q < 1" by (simp add: q_def)
  have q0: "0 \<le> q" by (simp add: q_def)
  from LIMSEQ_realpow_zero[OF q0 q1] have pw: "(\<lambda>n. q ^ n) \<longlonglongrightarrow> 0" .
  have "(\<lambda>n. 1 - q ^ n) \<longlonglongrightarrow> 1 - 0"
    by (intro tendsto_diff tendsto_const pw)
  then have "(\<lambda>n. (1 - 1 / (real N * real N)) / 3 * (1 - q ^ n))
               \<longlonglongrightarrow> (1 - 1 / (real N * real N)) / 3 * (1 - 0)"
    by (intro tendsto_mult tendsto_const)
  then show ?thesis
    by (simp add: variance_positive_half_life[OF assms] q_def)
qed

lemma stationary_below_third:
  assumes "0 < N"
  shows "(1 - 1 / (real N * real N)) / 3 < 1 / 3"
  using assms by simp

lemma spread_of_draws:
  "spread_of phi (map random [0..<n]) = spread_at random phi n"
proof -
  have "spread_at (\<lambda>i. map random [0..<n] ! i) phi n = spread_at random phi n"
    by (rule spread_at_cong) simp
  then show ?thesis by (simp add: spread_of_def)
qed

lemma interior_point:
  assumes "synthesize random iso_day selected = Inr s" and "j < days - 1"
  shows "val (data s ! j) = spread_of (phi_of (half_life selected)) (map random [0..<Suc j])"
proof -
  let ?p = "path random iso_day (phi_of (half_life selected))"
  from assms(1) have d: "data s = butlast ?p @ [anchor iso_day selected]"
    unfolding synthesize_eq by auto
  from assms(2) have j: "j < length (butlast ?p)" and j': "j < days"
    by (simp_all add: length_path)
  from d j have "data s ! j = ?p ! j" by (simp add: nth_append nth_butlast)
  also have "\<dots> = \<lparr>time = day_at iso_day j,
       val = spread_at random (phi_of (half_life selected)) (Suc j)\<rparr>"
    unfolding path_def using j' by (subst nth_map) simp_all
  finally show ?thesis by (simp only: spread_of_draws point.simps)
qed

text \<open>
  C7 says that the recursion keeps the long-run variance of the path at 1 for every positive
  half-life. The noise \<^verbatim>\<open>(Math.random() - 0.5) * 2\<close> is uniform on \<open>[-1, 1)\<close>, of variance about
  a third, and the long-run variance of the path is the variance of the noise: at half-life
  30 and resolution \<open>2 ^ 53\<close> the variance tends to a limit just below a third, not to 1.
\<close>

theorem unit_variance_counterexample:
  "spread_variance (2 ^ 53) (Fin 30) \<longlonglongrightarrow> (1 - 1 / (2 ^ 53 * 2 ^ 53)) / 3
   \<and> \<not> spread_variance (2 ^ 53) (Fin 30) \<longlonglongrightarrow> 1"
proof -
  have N: "0 < (2::nat) ^ 53" by simp
  have h: "(0::real) < 30" by simp
  have l: "(\<lambda>n. spread_variance (2 ^ 53) (Fin 30) n)
             \<longlonglongrightarrow> (1 - 1 / (real (2 ^ 53) * real (2 ^ 53))) / 3"
    by (rule variance_limit[OF h N])
  have "(1 - 1 / (real (2 ^ 53) * real (2 ^ 53))) / 3 < 1 / 3"
    by (rule stationary_below_third[OF N])
  then have ne: "(1 - 1 / (real (2 ^ 53) * real (2 ^ 53))) / 3 \<noteq> 1" by simp
  have "\<not> (\<lambda>n. spread_variance (2 ^ 53) (Fin 30) n) \<longlonglongrightarrow> 1"
  proof
    assume "(\<lambda>n. spread_variance (2 ^ 53) (Fin 30) n) \<longlonglongrightarrow> 1"
    from LIMSEQ_unique[OF l this] ne show False by simp
  qed
  with l show ?thesis by simp
qed

text \<open>
  C7, amended: for every positive half-life and every resolution \<open>N\<close> of the generator,
  each point of the series before the anchor is the spread the recursion computes from the
  draws made so far, the spread stays finite, its variance after \<open>n\<close> rounds is
  \<open>(1 - 1/N\<^sup>2)/3 * (1 - phi ^ (2 n))\<close> with \<open>phi = exp (- ln 2 / halfLife)\<close>, and its long-run
  variance is \<open>(1 - 1/N\<^sup>2)/3\<close>, the variance of one noise draw, which is below a third.
\<close>

theorem spread_variance_long_run:
  assumes "0 < h" and "0 < N"
  shows "(\<forall>random iso_day selected s j.
            half_life selected = Fin h \<and> synthesize random iso_day selected = Inr s
            \<and> j < days - 1
            \<longrightarrow> val (data s ! j) = spread_of (phi_of (Fin h)) (map random [0..<Suc j]))
     \<and> (\<forall>us\<in>set (draw_seqs N n). \<exists>x. spread_of (phi_of (Fin h)) us = Fin x)
     \<and> spread_variance N (Fin h) n
         = (1 - 1 / (real N)\<^sup>2) / 3 * (1 - exp (- ln 2 / h) ^ (2 * n))
     \<and> (\<lambda>n. spread_variance N (Fin h) n) \<longlonglongrightarrow> (1 - 1 / (real N)\<^sup>2) / 3
     \<and> (1 - 1 / (real N)\<^sup>2) / 3 < 1 / 3"
proof -
  note ph = phi_positive_half_life[OF assms(1)]
  from ph(2,3) have "exp (- ln 2 / h) * exp (- ln 2 / h) \<le> 1 * 1"
    by (intro mult_mono) simp_all
  then have le: "exp (- ln 2 / h) * exp (- ln 2 / h) \<le> 1" by simp
  have code: "\<forall>random iso_day selected s j.
            half_life selected = Fin h \<and> synthesize random iso_day selected = Inr s
            \<and> j < days - 1
            \<longrightarrow> val (data s ! j) = spread_of (phi_of (Fin h)) (map random [0..<Suc j])"
    using interior_point by metis
  have fin: "\<forall>us\<in>set (draw_seqs N n). \<exists>x. spread_of (phi_of (Fin h)) us = Fin x"
    unfolding ph(1) using spread_of_finite[OF le] by blast
  have pw: "(exp (- ln 2 / h) * exp (- ln 2 / h)) ^ n = exp (- ln 2 / h) ^ (2 * n)"
    by (simp add: power_mult power2_eq_square)
  have v: "spread_variance N (Fin h) n
         = (1 - 1 / (real N)\<^sup>2) / 3 * (1 - exp (- ln 2 / h) ^ (2 * n))"
    using variance_positive_half_life[OF assms, of n] pw by (simp add: power2_eq_square)
  have l: "(\<lambda>n. spread_variance N (Fin h) n) \<longlonglongrightarrow> (1 - 1 / (real N)\<^sup>2) / 3"
    using variance_limit[OF assms] by (simp add: power2_eq_square)
  have b: "(1 - 1 / (real N)\<^sup>2) / 3 < 1 / 3"
    using stationary_below_third[OF assms(2)] by (simp add: power2_eq_square)
  from code fin v l b show ?thesis by blast
qed

theorem spread_variance_long_run_witness:
  "val (data (projr (synthesize zero_draws day_label (sample_pair (Fin 1) (Fin 2.5)))) ! 0)
     = spread_of (phi_of (Fin 1)) [0]
   \<and> spread_variance 4 (Fin 1) 1 = (1 - 1 / 16) / 3 * (1 - exp (- ln 2) ^ 2)
   \<and> (\<lambda>n. spread_variance 4 (Fin 1) n) \<longlonglongrightarrow> (1 - 1 / 16) / 3"
proof -
  have h: "(0::real) < 1" and N: "0 < (4::nat)" by simp_all
  have s: "synthesize zero_draws day_label (sample_pair (Fin 1) (Fin 2.5))
           = Inr (projr (synthesize zero_draws day_label (sample_pair (Fin 1) (Fin 2.5))))"
    unfolding synthesize_eq by simp
  have hl: "half_life (sample_pair (Fin 1) (Fin 2.5)) = Fin 1" by (simp add: sample_pair_def)
  have j: "0 < days - 1" by (simp add: days_def)
  from spread_variance_long_run[OF h N, of 1] s hl j
  have "val (data (projr (synthesize zero_draws day_label (sample_pair (Fin 1) (Fin 2.5)))) ! 0)
          = spread_of (phi_of (Fin 1)) (map zero_draws [0..<Suc 0])"
    and "spread_variance 4 (Fin 1) 1 = (1 - 1 / 16) / 3 * (1 - exp (- ln 2) ^ 2)"
    and "(\<lambda>n. spread_variance 4 (Fin 1) n) \<longlonglongrightarrow> (1 - 1 / 16) / 3"
    by simp_all
  then show ?thesis by (simp add: zero_draws_def)
qed

end
